theory Spec2Isabelle
  imports Main "HOL-Library.AList" "HOL-Library.Sublist"
begin

section \<open>Data model: parsed page sources\<close>

text \<open>
  Both scripts work on \<^verbatim>\<open>xml.etree.ElementTree.Element\<close> objects. An element has a tag, an
  attribute dictionary and an ordered list of child elements. The class defines no
  \<^verbatim>\<open>__eq__\<close>, so Python's \<^verbatim>\<open>==\<close>, \<^verbatim>\<open>in\<close> and \<^verbatim>\<open>list.index\<close> compare elements by object identity.
  The field \<open>ident\<close> stands for that identity (the object's address): two values of the
  datatype denote the same object exactly when they are equal, and two distinct objects
  with the same tag, attributes and children differ in \<open>ident\<close>.

  The attribute dictionary is an association list in insertion order (Python dictionaries
  keep it, and the serialiser writes attributes in that order); its keys are distinct.
  Tags, attribute keys and attribute values are byte strings: each stands for a Python
  \<^verbatim>\<open>str\<close> by its UTF-8 encoding. The page source that the capture script receives is a
  sequence of code points, since not every \<^verbatim>\<open>str\<close> has an encoding.
\<close>

datatype element =
  Element (ident: nat) (tag: string) (attrib: "(string \<times> string) list") (children: "element list")

text \<open>
  The exceptions of the scripts and of the library functions they call:
  \<^verbatim>\<open>list.index\<close> raises \<^verbatim>\<open>ValueError\<close> when the item is not in the list, the XML parser
  raises \<^verbatim>\<open>ParseError\<close> on text that is not well-formed, encoding a string with a lone
  surrogate raises \<^verbatim>\<open>UnicodeEncodeError\<close>, and the recursive serialiser raises
  \<^verbatim>\<open>RecursionError\<close> on a tree that is too deep.
\<close>

datatype error = ValueError | ParseError | UnicodeEncodeError | RecursionError

text \<open>\<^verbatim>\<open>d.get(key)\<close>: the value, or \<^verbatim>\<open>None\<close>.\<close>

definition dict_get :: "(string \<times> string) list \<Rightarrow> string \<Rightarrow> string option" where
  "dict_get d k = map_of d k"

text \<open>\<^verbatim>\<open>d.get(key, default)\<close>.\<close>

definition dict_get_default :: "(string \<times> string) list \<Rightarrow> string \<Rightarrow> string \<Rightarrow> string" where
  "dict_get_default d k dflt = (case map_of d k of None \<Rightarrow> dflt | Some v \<Rightarrow> v)"

text \<open>\<^verbatim>\<open>key in d\<close>.\<close>

definition dict_contains :: "string \<Rightarrow> (string \<times> string) list \<Rightarrow> bool" where
  "dict_contains k d = (k \<in> fst ` set d)"

text \<open>\<^verbatim>\<open>root.iter()\<close>: the element itself, then its descendants, in document order.\<close>

fun iter :: "element \<Rightarrow> element list" where
  "iter (Element i t a cs) = Element i t a cs # concat (map iter cs)"

text \<open>\<^verbatim>\<open>str(n)\<close> for a non-negative integer: its decimal digits.\<close>

fun str_nat :: "nat \<Rightarrow> string" where
  "str_nat n =
     (if n < 10 then [''0123456789'' ! n]
      else str_nat (n div 10) @ [''0123456789'' ! (n mod 10)])"

declare str_nat.simps [simp del]

text \<open>\<^verbatim>\<open>sep.join(parts)\<close>.\<close>

fun join :: "string \<Rightarrow> string list \<Rightarrow> string" where
  "join sep [] = []"
| "join sep [x] = x"
| "join sep (x # y # ys) = x @ sep @ join sep (y # ys)"

text \<open>
  \<^verbatim>\<open>s.lower()\<close>. On the bytes of a string the ASCII capitals are mapped to their small
  letters and every other byte is kept. The scripts only compare the result with
  \<^verbatim>\<open>"true"\<close> and \<^verbatim>\<open>".xml"\<close>; no character outside ASCII has one of the letters of these
  words as its lower case, so on these comparisons the byte-wise function agrees with
  Python's.
\<close>

definition lower_char :: "char \<Rightarrow> char" where
  "lower_char c =
     (case map_of (zip ''ABCDEFGHIJKLMNOPQRSTUVWXYZ'' ''abcdefghijklmnopqrstuvwxyz'') c of
        None \<Rightarrow> c
      | Some l \<Rightarrow> l)"

definition str_lower :: "string \<Rightarrow> string" where
  "str_lower s = map lower_char s"

section \<open>The capture script (save\_app\_pages.py)\<close>

text \<open>
  The loop of \<^verbatim>\<open>compute_filtered_hash\<close>:
  \<^verbatim>\<open>for elem in root.iter(): if 'value' in elem.attrib: del elem.attrib['value']\<close>.
  Every element of a parsed tree owns its dictionary, so the in-place deletion at each
  element of the traversal is the tree rebuilt with the key deleted at every node.
\<close>

fun strip_value :: "element \<Rightarrow> element" where
  "strip_value (Element i t a cs) =
     Element i t
       (if dict_contains ''value'' a then AList.delete ''value'' a else a)
       (map strip_value cs)"

text \<open>
  The page source is a Python \<^verbatim>\<open>str\<close>: a sequence of code points.
\<close>

type_synonym unicode = "nat list"

text \<open>
  \<^verbatim>\<open>text.encode()\<close>: UTF-8, strict. The bytes of one code point; a surrogate (D800 to
  DFFF) has none, and encoding a string that holds one raises \<^verbatim>\<open>UnicodeEncodeError\<close>. (A
  Python string holds no code point from 110000 on.)
\<close>

definition utf8 :: "nat \<Rightarrow> nat list option" where
  "utf8 c =
     (if c < 0x80 then Some [c]
      else if c < 0x800 then Some [0xC0 + c div 0x40, 0x80 + c mod 0x40]
      else if 0xD800 \<le> c \<and> c < 0xE000 then None
      else if c < 0x10000 then
        Some [0xE0 + c div 0x1000, 0x80 + c div 0x40 mod 0x40, 0x80 + c mod 0x40]
      else if c < 0x110000 then
        Some [0xF0 + c div 0x40000, 0x80 + c div 0x1000 mod 0x40, 0x80 + c div 0x40 mod 0x40,
              0x80 + c mod 0x40]
      else None)"

fun encode :: "unicode \<Rightarrow> error + string" where
  "encode [] = Inr []"
| "encode (c # cs) =
     (case utf8 c of
        None \<Rightarrow> Inl UnicodeEncodeError
      | Some bs \<Rightarrow>
          (case encode cs of
             Inl e \<Rightarrow> Inl e
           | Inr rest \<Rightarrow> Inr (map char_of bs @ rest)))"

text \<open>
  \<^verbatim>\<open>ET.fromstring(text)\<close> on a \<^verbatim>\<open>str\<close>: the text is handed to expat, which first encodes it as
  UTF-8 (\<^verbatim>\<open>UnicodeEncodeError\<close> on a lone surrogate) and then parses the bytes. The parser
  of the bytes is a parameter: it gives the root element or raises, \<^verbatim>\<open>ParseError\<close> when the
  bytes are not well-formed XML.
\<close>

definition fromstring :: "(string \<Rightarrow> error + element) \<Rightarrow> unicode \<Rightarrow> error + element" where
  "fromstring parse_bytes text =
     (case encode text of
        Inl e \<Rightarrow> Inl e
      | Inr data \<Rightarrow> parse_bytes data)"

text \<open>
  \<^verbatim>\<open>compute_filtered_hash(page_source)\<close>. Only \<^verbatim>\<open>ParseError\<close> is caught; every other
  exception leaves the function. The serialiser (\<^verbatim>\<open>ET.tostring(root, encoding='utf-8')\<close>,
  which may raise) and the digest (\<^verbatim>\<open>hashlib.md5(bytes).hexdigest()\<close>) are library functions
  and are parameters, as is the parser of the bytes.
\<close>

definition compute_filtered_hash ::
  "(string \<Rightarrow> error + element) \<Rightarrow> (element \<Rightarrow> error + string) \<Rightarrow> (string \<Rightarrow> string)
     \<Rightarrow> unicode \<Rightarrow> error + string" where
  "compute_filtered_hash parse_bytes tostring md5 page_source =
     (case fromstring parse_bytes page_source of
        Inl e \<Rightarrow>
          (if e = ParseError then
             (case encode page_source of
                Inl e' \<Rightarrow> Inl e'
              | Inr data \<Rightarrow> Inr (md5 data))
           else Inl e)
      | Inr root \<Rightarrow>
          (case tostring (strip_value root) of
             Inl e \<Rightarrow> Inl e
           | Inr filtered_source \<Rightarrow> Inr (md5 filtered_source)))"

text \<open>
  The tracking variables of the capture loop, and the files it has written (path and
  content, in the order of writing).
\<close>

record capture_state =
  saved_hashes :: "string set"
  page_count :: nat
  written :: "(string \<times> string) list"

definition initial_capture_state :: capture_state where
  "initial_capture_state = \<lparr>saved_hashes = {}, page_count = 0, written = []\<rparr>"

text \<open>
  The test on \<^verbatim>\<open>saved_hashes\<close> and its two branches (lines 62 to 70). The result says
  which branch ran: \<open>True\<close> for the branch that saves the page, \<open>False\<close> for the branch
  that skips it.
\<close>

definition observe :: "capture_state \<Rightarrow> string \<Rightarrow> string \<Rightarrow> bool \<times> capture_state" where
  "observe st current_filtered_hash page_source =
     (if current_filtered_hash \<notin> saved_hashes st then
        (let n = page_count st + 1;
             filename = ''page_'' @ str_nat n @ ''.xml''
         in (True,
             st\<lparr>saved_hashes := insert current_filtered_hash (saved_hashes st),
                page_count := n,
                written := written st @ [(filename, page_source)]\<rparr>))
      else (False, st))"

text \<open>The store fed with a sequence of fingerprints, each with the page source it came from.\<close>

fun observe_all :: "capture_state \<Rightarrow> (string \<times> string) list \<Rightarrow> bool list \<times> capture_state" where
  "observe_all st [] = ([], st)"
| "observe_all st ((h, src) # rest) =
     (case observe st h src of (b, st') \<Rightarrow>
        (case observe_all st' rest of (bs, st'') \<Rightarrow> (b # bs, st'')))"

section \<open>The extraction script (extract\_paths.py)\<close>

definition INTERACTIVE_TAGS :: "string set" where
  "INTERACTIVE_TAGS =
     {''XCUIElementTypeButton'', ''XCUIElementTypeLink'', ''XCUIElementTypeCell'',
      ''XCUIElementTypeStaticText'', ''XCUIElementTypeMenuItem'', ''XCUIElementTypeCheckBox'',
      ''XCUIElementTypeSwitch''}"

text \<open>The single quote of the format strings, and the newline.\<close>

definition quote :: string where
  "quote = [CHR 0x27]"

definition newline :: string where
  "newline = [CHR 0x0A]"

text \<open>Python's truth value of an optional string: \<^verbatim>\<open>None\<close> and \<^verbatim>\<open>""\<close> are false.\<close>

definition truthy :: "string option \<Rightarrow> bool" where
  "truthy v = (case v of None \<Rightarrow> False | Some s \<Rightarrow> s \<noteq> [])"

text \<open>An optional string inside a format string: \<^verbatim>\<open>None\<close> prints as \<^verbatim>\<open>None\<close>.\<close>

definition py_str :: "string option \<Rightarrow> string" where
  "py_str v = (case v of None \<Rightarrow> ''None'' | Some s \<Rightarrow> s)"

definition classify_element :: "element \<Rightarrow> string" where
  "classify_element elem =
     (let tg = tag elem;
          enabled = (str_lower (dict_get_default (attrib elem) ''enabled'' []) = ''true'');
          visible = (str_lower (dict_get_default (attrib elem) ''visible'' []) = ''true'');
          enabled = (if \<not> dict_contains ''enabled'' (attrib elem) then True else enabled);
          visible = (if \<not> dict_contains ''visible'' (attrib elem) then True else visible)
      in if tg \<in> INTERACTIVE_TAGS \<and> enabled \<and> visible then ''Interactive''
         else ''Non-Interactive'')"

type_synonym unique_key =
  "string \<times> string \<times> string \<times> string \<times> string \<times> string \<times> string \<times> string"

definition create_unique_key :: "element \<Rightarrow> unique_key" where
  "create_unique_key elem =
     (tag elem,
      dict_get_default (attrib elem) ''name'' [],
      dict_get_default (attrib elem) ''label'' [],
      dict_get_default (attrib elem) ''value'' [],
      dict_get_default (attrib elem) ''x'' [],
      dict_get_default (attrib elem) ''y'' [],
      dict_get_default (attrib elem) ''width'' [],
      dict_get_default (attrib elem) ''height'' [])"

definition build_interactive_line :: "element \<Rightarrow> string \<Rightarrow> string list \<Rightarrow> string" where
  "build_interactive_line elem xpath ios_class_chain_candidates =
     (let name = dict_get_default (attrib elem) ''name'' [];
          label = dict_get_default (attrib elem) ''label'' [];
          val = dict_get_default (attrib elem) ''value'' [];
          x = dict_get_default (attrib elem) ''x'' [];
          y = dict_get_default (attrib elem) ''y'' [];
          w = dict_get_default (attrib elem) ''width'' [];
          h = dict_get_default (attrib elem) ''height'' [];
          lines =
            [''Tag: '' @ tag elem,
             ''name='' @ quote @ name @ quote @ '', label='' @ quote @ label @ quote
               @ '', value='' @ quote @ val @ quote,
             ''Position: x='' @ x @ '', y='' @ y @ '', width='' @ w @ '', height='' @ h,
             ''Absolute XPath: '' @ xpath];
          lines =
            (if ios_class_chain_candidates \<noteq> [] then
               lines @ [''iOS Class Chain Candidates:'']
                 @ map (\<lambda>candidate. ''  - '' @ candidate) ios_class_chain_candidates
             else lines)
      in join newline lines)"

definition get_position_summary :: "element \<Rightarrow> string" where
  "get_position_summary elem =
     (let x = dict_get (attrib elem) ''x'';
          y = dict_get (attrib elem) ''y'';
          w = dict_get (attrib elem) ''width'';
          h = dict_get (attrib elem) ''height'';
          position_attrs = [];
          position_attrs = (if x \<noteq> None then position_attrs @ [''x='' @ py_str x] else position_attrs);
          position_attrs = (if y \<noteq> None then position_attrs @ [''y='' @ py_str y] else position_attrs);
          position_attrs = (if w \<noteq> None then position_attrs @ [''width='' @ py_str w] else position_attrs);
          position_attrs = (if h \<noteq> None then position_attrs @ [''height='' @ py_str h] else position_attrs)
      in if position_attrs \<noteq> [] then join '', '' position_attrs else [])"

definition get_attributes_summary :: "element \<Rightarrow> string" where
  "get_attributes_summary elem =
     (let attrs =
            concat (map (\<lambda>key.
                      let val = dict_get (attrib elem) key
                      in if truthy val then [key @ ''='' @ quote @ py_str val @ quote] else [])
                    [''name'', ''label'', ''value'', ''enabled'', ''visible''])
      in join '', '' attrs)"

text \<open>
  \<^verbatim>\<open>find_parent(root, child)\<close>: the first element of the traversal that has \<open>child\<close> among
  its children.
\<close>

definition find_parent :: "element \<Rightarrow> element \<Rightarrow> element option" where
  "find_parent root child = find (\<lambda>elem. child \<in> set (children elem)) (iter root)"

text \<open>\<^verbatim>\<open>xs.index(x)\<close>: the first position of \<open>x\<close>, \<open>None\<close> where Python raises \<^verbatim>\<open>ValueError\<close>.\<close>

fun index_of :: "'a list \<Rightarrow> 'a \<Rightarrow> nat option" where
  "index_of [] x = None"
| "index_of (y # ys) x = (if y = x then Some 0 else map_option Suc (index_of ys x))"

text \<open>
  The \<^verbatim>\<open>while\<close> loop of \<^verbatim>\<open>get_xpath\<close>. Elements of the standard library have no
  \<^verbatim>\<open>getparent\<close>, so the parent comes from \<open>find_parent\<close>. \<open>current\<close> is an element in
  every round (the test \<^verbatim>\<open>current is not None\<close> never fails). The loop ends with the
  segments collected so far, or with the exception of \<^verbatim>\<open>siblings.index\<close>.
\<close>

function get_xpath_loop :: "element \<Rightarrow> element \<Rightarrow> string list \<Rightarrow> error + string list" where
  "get_xpath_loop root current segments =
     (if current \<noteq> root then
        (case find_parent root current of
           None \<Rightarrow> Inr segments
         | Some parent \<Rightarrow>
             (let siblings = filter (\<lambda>e. tag e = tag current) (children parent)
              in case index_of siblings current of
                   None \<Rightarrow> Inl ValueError
                 | Some i \<Rightarrow>
                     (let index = i + 1
                      in get_xpath_loop root parent
                           (segments @ [''/'' @ tag current @ ''['' @ str_nat index @ '']'']))))
      else Inr segments)"
  by pat_completeness auto
termination
proof (relation "measure (\<lambda>(root, current, segments). size root - size current)")
  show "wf (measure (\<lambda>(root, current, segments). size root - size current))"
    by simp
next
  fix root current :: element and segments :: "string list" and parent siblings i index
  assume found: "find_parent root current = Some parent"
  have in_iter: "parent \<in> set (iter root)" and child: "current \<in> set (children parent)"
    using found by (auto simp: find_parent_def find_Some_iff)
  have le: "size p \<le> size r" if "p \<in> set (iter r)" for p r
    using that
  proof (induction r arbitrary: p)
    case (Element i t a cs)
    show ?case
    proof (cases "p = Element i t a cs")
      case True
      then show ?thesis by simp
    next
      case False
      then obtain c where c: "c \<in> set cs" "p \<in> set (iter c)"
        using Element.prems by auto
      then have "size p \<le> size c"
        using Element.IH by blast
      moreover have "size c \<le> size_list size cs"
        using c(1) by (simp add: size_list_estimation')
      ultimately show ?thesis by simp
    qed
  qed
  have "size current < size parent"
  proof (cases parent)
    case (Element i t a cs)
    then have "size current \<le> size_list size cs"
      using child by (simp add: size_list_estimation')
    then show ?thesis using Element by simp
  qed
  moreover have "size parent \<le> size root"
    using le in_iter by blast
  ultimately show "((root, parent, segments @ [''/'' @ tag current @ ''['' @ str_nat index @ '']'']),
                    (root, current, segments))
                   \<in> measure (\<lambda>(root, current, segments). size root - size current)"
    by simp
qed

declare get_xpath_loop.simps [simp del]

definition get_xpath :: "element \<Rightarrow> element \<Rightarrow> error + string" where
  "get_xpath element root =
     (if element = root then Inr (''/'' @ tag root)
      else
        (case get_xpath_loop root element [] of
           Inl e \<Rightarrow> Inl e
         | Inr segments \<Rightarrow> Inr (concat (rev segments))))"

definition get_ios_class_chain_candidates :: "element \<Rightarrow> string list" where
  "get_ios_class_chain_candidates elem =
     (let candidates = [];
          tg = tag elem;
          name = dict_get (attrib elem) ''name'';
          label = dict_get (attrib elem) ''label'';
          val = dict_get (attrib elem) ''value'';
          candidates =
            (if truthy name then
               candidates @ [''**/'' @ tg @ ''[@name='' @ quote @ py_str name @ quote @ '']'']
             else candidates);
          candidates =
            (if truthy label \<and> (\<not> truthy name \<or> label \<noteq> name) then
               candidates @ [''**/'' @ tg @ ''[@label='' @ quote @ py_str label @ quote @ '']'']
             else candidates);
          candidates =
            (if truthy val then
               candidates @ [''**/'' @ tg @ ''[@value='' @ quote @ py_str val @ quote @ '']'']
             else candidates);
          candidates =
            (if truthy name \<and> truthy label then
               candidates @ [''**/'' @ tg @ ''[@name='' @ quote @ py_str name @ quote
                              @ '' and @label='' @ quote @ py_str label @ quote @ '']'']
             else candidates)
      in candidates)"

text \<open>
  The body of the loop over \<^verbatim>\<open>root.iter()\<close> in \<^verbatim>\<open>main\<close>, on the report lines of the
  current file, the set of keys seen so far and the items of the master file. An
  exception of \<^verbatim>\<open>get_xpath\<close> is not caught by \<^verbatim>\<open>main\<close> and ends the run.
\<close>

definition process_element ::
  "element \<Rightarrow> element \<Rightarrow> string list \<times> unique_key set \<times> string list
     \<Rightarrow> error + string list \<times> unique_key set \<times> string list" where
  "process_element root elem acc =
     (case acc of (lines, master_interactive_set, master_interactive_items) \<Rightarrow>
        (case get_xpath elem root of
           Inl e \<Rightarrow> Inl e
         | Inr xpath \<Rightarrow>
             (let ios_class_chain_candidates = get_ios_class_chain_candidates elem;
                  attr_summary = get_attributes_summary elem;
                  position_summary = get_position_summary elem;
                  classification = classify_element elem;
                  line_parts = [''Tag: '' @ tag elem, ''Attributes: '' @ attr_summary];
                  line_parts =
                    (if position_summary \<noteq> [] then line_parts @ [''Position: '' @ position_summary]
                     else line_parts);
                  line_parts = line_parts @ [''Classification: '' @ classification];
                  line_parts = line_parts @ [''Absolute XPath: '' @ xpath];
                  line_parts =
                    (if ios_class_chain_candidates \<noteq> [] then
                       line_parts @ [''iOS Class Chain Candidates:'']
                         @ map (\<lambda>candidate. ''  - '' @ candidate) ios_class_chain_candidates
                     else line_parts);
                  lines = lines @ [join newline line_parts, replicate 80 (CHR ''-'')]
              in if classification = ''Interactive'' then
                   (let unique_key = create_unique_key elem
                    in if unique_key \<notin> master_interactive_set then
                         Inr (lines, insert unique_key master_interactive_set,
                              master_interactive_items
                                @ [build_interactive_line elem xpath ios_class_chain_candidates])
                       else Inr (lines, master_interactive_set, master_interactive_items))
                 else Inr (lines, master_interactive_set, master_interactive_items))))"

fun process_elements ::
  "element \<Rightarrow> element list \<Rightarrow> string list \<times> unique_key set \<times> string list
     \<Rightarrow> error + string list \<times> unique_key set \<times> string list" where
  "process_elements root [] acc = Inr acc"
| "process_elements root (elem # rest) acc =
     (case process_element root elem acc of
        Inl e \<Rightarrow> Inl e
      | Inr acc' \<Rightarrow> process_elements root rest acc')"

text \<open>
  The root part of \<^verbatim>\<open>os.path.splitext\<close> for a name without a directory separator: the
  name up to its last dot, unless only dots stand before that dot.
\<close>

definition splitext_root :: "string \<Rightarrow> string" where
  "splitext_root p =
     (let stem = rev (drop 1 (dropWhile (\<lambda>c. c \<noteq> CHR ''.'') (rev p)))
      in if list_ex (\<lambda>c. c \<noteq> CHR ''.'') stem then stem else p)"

text \<open>
  The state of a run of \<^verbatim>\<open>main\<close>: the keys of the master set, the items of the master
  file in the order they were appended, and the files written (path and content).
\<close>

record extraction_state =
  master_interactive_set :: "unique_key set"
  master_interactive_items :: "string list"
  output_files :: "(string \<times> string) list"

text \<open>
  The loop over the directory listing. \<open>parse\<close> stands for
  \<^verbatim>\<open>ET.parse(input_path).getroot()\<close>: \<open>None\<close> when it raises, and then the file is skipped.
\<close>

fun process_files ::
  "(string \<Rightarrow> element option) \<Rightarrow> string list \<Rightarrow> extraction_state \<Rightarrow> error + extraction_state" where
  "process_files parse [] st = Inr st"
| "process_files parse (filename # rest) st =
     (if \<not> suffix ''.xml'' (str_lower filename) then process_files parse rest st
      else
        (let input_path = ''Input/'' @ filename;
             base_name = splitext_root filename;
             output_filename = base_name @ ''_output.txt'';
             output_path = ''Output/'' @ output_filename
         in case parse input_path of
              None \<Rightarrow> process_files parse rest st
            | Some root \<Rightarrow>
                (case process_elements root (iter root)
                        ([''=== Locators for '' @ filename @ '' ==='' @ newline],
                         master_interactive_set st, master_interactive_items st) of
                   Inl e \<Rightarrow> Inl e
                 | Inr (lines, keys, items) \<Rightarrow>
                     process_files parse rest
                       \<lparr>master_interactive_set = keys,
                        master_interactive_items = items,
                        output_files = output_files st @ [(output_path, join newline lines)]\<rparr>)))"

definition main :: "(string \<Rightarrow> element option) \<Rightarrow> string list \<Rightarrow> error + extraction_state" where
  "main parse listing =
     (case process_files parse listing
             \<lparr>master_interactive_set = {}, master_interactive_items = [], output_files = []\<rparr> of
        Inl e \<Rightarrow> Inl e
      | Inr st \<Rightarrow>
          Inr (st\<lparr>output_files :=
                    output_files st
                      @ [(''Output/master_interactive.txt'',
                          ''=== MASTER LIST OF UNIQUE INTERACTIVE ELEMENTS ==='' @ newline @ newline
                            @ concat (map (\<lambda>item. item @ newline @ newline)
                                        (master_interactive_items st)))]\<rparr>))"

section \<open>Notions of the specification\<close>

text \<open>
  Two trees that are identical except for \<^verbatim>\<open>value\<close> attributes, as documents: the least
  relation that lets the string of a \<^verbatim>\<open>value\<close> attribute change, lets a \<^verbatim>\<open>value\<close>
  attribute appear or disappear at a node, does so at any depth, and may do so at several
  nodes. The other attributes stand in the same order. The two trees may be different
  objects at every node (two parses never share an object), so \<open>ident\<close> is free.
\<close>

inductive value_variant :: "element \<Rightarrow> element \<Rightarrow> bool" where
  vv_same: "value_variant e e"
| vv_object: "value_variant (Element i t a cs) (Element j t a cs)"
| vv_changed:
    "value_variant (Element i t (xs @ (''value'', v) # ys) cs)
                   (Element i t (xs @ (''value'', v') # ys) cs)"
| vv_added:
    "value_variant (Element i t (xs @ ys) cs) (Element i t (xs @ (''value'', v) # ys) cs)"
| vv_removed:
    "value_variant (Element i t (xs @ (''value'', v) # ys) cs) (Element i t (xs @ ys) cs)"
| vv_child:
    "value_variant c c' \<Longrightarrow>
       value_variant (Element i t a (cs1 @ c # cs2)) (Element i t a (cs1 @ c' # cs2))"
| vv_trans: "value_variant e1 e2 \<Longrightarrow> value_variant e2 e3 \<Longrightarrow> value_variant e1 e3"

text \<open>
  Two trees that are identical except for \<^verbatim>\<open>value\<close> attributes in the data model of the
  specification, where the attributes of a node are a mapping and their order does not
  count: the same tags, the same value for every key other than \<^verbatim>\<open>value\<close>, and children
  that are pairwise so related.
\<close>

inductive same_except_value :: "element \<Rightarrow> element \<Rightarrow> bool" where
  "t = u \<Longrightarrow> (\<And>k. k \<noteq> ''value'' \<Longrightarrow> dict_get a k = dict_get b k)
     \<Longrightarrow> list_all2 same_except_value cs ds
     \<Longrightarrow> same_except_value (Element i t a cs) (Element j u b ds)"

text \<open>The tree without the identities of its objects.\<close>

fun unlabel :: "element \<Rightarrow> element" where
  "unlabel (Element i t a cs) = Element 0 t a (map unlabel cs)"

text \<open>
  What \<^verbatim>\<open>ET.tostring\<close> writes for a tree without text whose attribute values need no
  escaping: the attributes of each element in the order of its dictionary. An instance of
  the serialiser, for concrete runs.
\<close>

definition double_quote :: string where
  "double_quote = [CHR 0x22]"

definition xml_attribute :: "string \<Rightarrow> string \<Rightarrow> string" where
  "xml_attribute k v = '' '' @ k @ ''='' @ double_quote @ v @ double_quote"

fun serialise :: "element \<Rightarrow> string" where
  "serialise (Element i t a cs) =
     ''<'' @ t
       @ concat (map (\<lambda>(k, v). xml_attribute k v) a)
       @ (if cs = [] then '' />''
          else ''>'' @ concat (map serialise cs) @ ''</'' @ t @ ''>'')"

text \<open>
  Case-insensitive equality of strings: the same length, and at each position the same
  character or the capital and the small form of one letter.
\<close>

definition same_letter :: "char \<Rightarrow> char \<Rightarrow> bool" where
  "same_letter a b =
     (a = b
      \<or> (a, b) \<in> set (zip ''ABCDEFGHIJKLMNOPQRSTUVWXYZ'' ''abcdefghijklmnopqrstuvwxyz'')
      \<or> (b, a) \<in> set (zip ''ABCDEFGHIJKLMNOPQRSTUVWXYZ'' ''abcdefghijklmnopqrstuvwxyz''))"

definition case_insensitive_equal :: "string \<Rightarrow> string \<Rightarrow> bool" where
  "case_insensitive_equal s t = list_all2 same_letter s t"

text \<open>A state attribute that is absent, or case-insensitively equal to \<^verbatim>\<open>true\<close>.\<close>

definition true_or_absent :: "string option \<Rightarrow> bool" where
  "true_or_absent v = (case v of None \<Rightarrow> True | Some s \<Rightarrow> case_insensitive_equal s ''true'')"

text \<open>
  The template of a locator candidate: \<^verbatim>\<open>**/<tag>[@<key>='<value>']\<close>, the conditions joined
  with \<^verbatim>\<open> and \<close>.
\<close>

definition class_chain :: "string \<Rightarrow> (string \<times> string) list \<Rightarrow> string" where
  "class_chain tg conds =
     ''**/'' @ tg @ ''[''
       @ join '' and '' (map (\<lambda>(k, v). ''@'' @ k @ ''='' @ quote @ v @ quote) conds) @ '']''"

text \<open>An attribute that is absent or the empty string.\<close>

definition absent_or_empty :: "string option \<Rightarrow> bool" where
  "absent_or_empty v = (v = None \<or> v = Some [])"

text \<open>
  The nodes a run meets, each with the root of its snapshot, in the order of the run:
  the files of the listing whose name ends in \<^verbatim>\<open>.xml\<close> and that parse, each in document
  order; and those of them that are classified \<^verbatim>\<open>Interactive\<close>.
\<close>

definition snapshot_nodes ::
  "(string \<Rightarrow> element option) \<Rightarrow> string list \<Rightarrow> (element \<times> element) list" where
  "snapshot_nodes parse listing =
     concat (map (\<lambda>filename.
                    case parse (''Input/'' @ filename) of
                      None \<Rightarrow> []
                    | Some root \<Rightarrow> map (\<lambda>elem. (elem, root)) (iter root))
                 (filter (\<lambda>filename. suffix ''.xml'' (str_lower filename)) listing))"

definition interactive_nodes ::
  "(string \<Rightarrow> element option) \<Rightarrow> string list \<Rightarrow> (element \<times> element) list" where
  "interactive_nodes parse listing =
     filter (\<lambda>n. classify_element (fst n) = ''Interactive'') (snapshot_nodes parse listing)"

definition node_key :: "element \<times> element \<Rightarrow> unique_key" where
  "node_key n = create_unique_key (fst n)"

text \<open>
  The first occurrences of a list under a key, in the order of the list: position \<open>i\<close>
  is kept when no earlier position has the same key.
\<close>

definition first_seen :: "('a \<Rightarrow> 'k) \<Rightarrow> 'a list \<Rightarrow> 'a list" where
  "first_seen key xs =
     map (\<lambda>i. xs ! i) (filter (\<lambda>i. key (xs ! i) \<notin> key ` set (take i xs)) [0..<length xs])"

text \<open>The item of the master file for a node of a snapshot.\<close>

definition master_entry :: "element \<times> element \<Rightarrow> string" where
  "master_entry n =
     (case get_xpath (fst n) (snd n) of
        Inl e \<Rightarrow> []
      | Inr xpath \<Rightarrow>
          build_interactive_line (fst n) xpath (get_ios_class_chain_candidates (fst n)))"

text \<open>What one node does to the set of keys and to the items of the master file.\<close>

definition master_step ::
  "unique_key set \<times> string list \<Rightarrow> element \<times> element \<Rightarrow> unique_key set \<times> string list" where
  "master_step acc n =
     (case acc of (keys, items) \<Rightarrow>
        if classify_element (fst n) = ''Interactive'' \<and> node_key n \<notin> keys then
          (insert (node_key n) keys, items @ [master_entry n])
        else (keys, items))"

text \<open>
  The path the specification describes, below the root: the rank of a node among the
  children of its parent that have its tag, counted from 1; the segment \<^verbatim>\<open>/tag[rank]\<close>; and
  the segments from a child of the root down to a node.
\<close>

definition sibling_rank :: "element \<Rightarrow> element list \<Rightarrow> nat" where
  "sibling_rank c cs = length (filter (\<lambda>e. tag e = tag c) (takeWhile (\<lambda>e. e \<noteq> c) cs)) + 1"

definition segment :: "element \<Rightarrow> element list \<Rightarrow> string" where
  "segment c cs = ''/'' @ tag c @ ''['' @ str_nat (sibling_rank c cs) @ '']''"

inductive path_to :: "element \<Rightarrow> element \<Rightarrow> string list \<Rightarrow> bool" for root where
  path_child: "c \<in> set (children root) \<Longrightarrow> path_to root c [segment c (children root)]"
| path_step: "path_to root p ss \<Longrightarrow> c \<in> set (children p) \<Longrightarrow> path_to root c (ss @ [segment c (children p)])"

section \<open>The fingerprint and the store\<close>

lemma delete_absent: "\<not> dict_contains k d \<Longrightarrow> AList.delete k d = d"
  by (induction d) (auto simp: dict_contains_def)

lemma strip_value_attrib:
  "(if dict_contains ''value'' a then AList.delete ''value'' a else a) = AList.delete ''value'' a"
  by (simp add: delete_absent)

lemma strip_value_variant: "value_variant e1 e2 \<Longrightarrow> unlabel (strip_value e1) = unlabel (strip_value e2)"
proof (induction rule: value_variant.induct)
  case (vv_same e)
  show ?case by simp
next
  case (vv_object i t a cs j)
  show ?case by simp
next
  case (vv_changed i t xs v ys cs v')
  show ?case by (simp add: strip_value_attrib AList.delete_eq)
next
  case (vv_added i t xs ys cs v)
  show ?case by (simp add: strip_value_attrib AList.delete_eq)
next
  case (vv_removed i t xs v ys cs)
  show ?case by (simp add: strip_value_attrib AList.delete_eq)
next
  case (vv_child c c' i t a cs1 cs2)
  then show ?case by simp
next
  case (vv_trans e1 e2 e3)
  then show ?case by simp
qed

lemma serialise_unlabel: "serialise (unlabel e) = serialise e"
proof (induction e)
  case (Element i t a cs)
  have m: "map (serialise \<circ> unlabel) cs = map serialise cs"
    using Element.IH by (intro map_cong) auto
  show ?case by (cases "cs = []") (simp_all add: m)
qed

lemma encode_error: "encode src = Inl e \<Longrightarrow> e = UnicodeEncodeError"
  by (induction src arbitrary: e) (auto split: option.splits sum.splits)

lemma encode_ascii: "\<forall>c \<in> set s. of_char c < (128::nat) \<Longrightarrow> encode (map of_char s) = Inr s"
  by (induction s) (simp_all add: utf8_def)

lemma encode_surrogate:
  "0xD800 \<le> c \<Longrightarrow> c < 0xE000 \<Longrightarrow> encode (pre @ c # post) = Inl UnicodeEncodeError"
proof (induction pre)
  case Nil
  then show ?case by (simp add: utf8_def)
next
  case (Cons a pre)
  then show ?case by (simp split: option.splits)
qed

lemma hash_parsed:
  "fromstring parse_bytes src = Inr root \<Longrightarrow>
     compute_filtered_hash parse_bytes tostring md5 src
       = (case tostring (strip_value root) of Inl e \<Rightarrow> Inl e | Inr b \<Rightarrow> Inr (md5 b))"
  by (simp add: compute_filtered_hash_def)

lemma hash_parse_error:
  assumes "fromstring parse_bytes src = Inl ParseError"
  shows "\<exists>data. encode src = Inr data \<and> parse_bytes data = Inl ParseError
           \<and> compute_filtered_hash parse_bytes tostring md5 src = Inr (md5 data)"
proof (cases "encode src")
  case (Inl e)
  then have "e = UnicodeEncodeError" by (rule encode_error)
  then show ?thesis using assms Inl by (simp add: fromstring_def)
next
  case (Inr data)
  then show ?thesis using assms by (simp add: fromstring_def compute_filtered_hash_def)
qed

lemma hash_encode_error:
  assumes "encode src = Inl e"
  shows "compute_filtered_hash parse_bytes tostring md5 src = Inl UnicodeEncodeError"
  using assms encode_error [OF assms] by (simp add: compute_filtered_hash_def fromstring_def)

text \<open>
  The relation of the documents is within the relation of the data model of the
  specification.
\<close>

lemma same_except_value_object:
  "same_except_value (Element i t a cs) (Element j t a cs)"
proof (induction cs arbitrary: i j t a rule: measure_induct_rule [where f = "size_list size"])
  case (less cs)
  have "same_except_value c c" if "c \<in> set cs" for c
  proof (cases c)
    case (Element i' t' a' cs')
    have "size_list size cs' < size_list size cs"
      using that Element size_list_estimation' [of c cs "size c" size] by simp
    then show ?thesis using less Element by blast
  qed
  then have "list_all2 same_except_value cs cs"
    by (simp add: list_all2_same)
  then show ?case by (intro same_except_value.intros) simp_all
qed

lemma same_except_value_refl: "same_except_value e e"
  by (cases e) (simp add: same_except_value_object)

lemma same_except_value_trans:
  "same_except_value e1 e2 \<Longrightarrow> same_except_value e2 e3 \<Longrightarrow> same_except_value e1 e3"
proof (induction e1 arbitrary: e2 e3)
  case (Element i t a cs)
  from Element.prems(1) obtain j b ds where e2: "e2 = Element j t b ds"
    and ab: "\<And>k. k \<noteq> ''value'' \<Longrightarrow> dict_get a k = dict_get b k"
    and cd: "list_all2 same_except_value cs ds"
    by (auto elim: same_except_value.cases)
  from Element.prems(2) e2 obtain l c es where e3: "e3 = Element l t c es"
    and bc: "\<And>k. k \<noteq> ''value'' \<Longrightarrow> dict_get b k = dict_get c k"
    and de: "list_all2 same_except_value ds es"
    by (auto elim: same_except_value.cases)
  have "list_all2 same_except_value cs es"
    unfolding list_all2_conv_all_nth
  proof (intro conjI allI impI)
    show "length cs = length es"
      using cd de by (simp add: list_all2_lengthD)
    fix n assume n: "n < length cs"
    then have "same_except_value (cs ! n) (ds ! n)" "same_except_value (ds ! n) (es ! n)"
      using cd de by (simp_all add: list_all2_conv_all_nth)
    then show "same_except_value (cs ! n) (es ! n)"
      using Element.IH [of "cs ! n"] n by auto
  qed
  then show ?case
    unfolding e3 using ab bc by (intro same_except_value.intros) simp_all
qed

lemma value_variant_same_except_value:
  "value_variant e1 e2 \<Longrightarrow> same_except_value e1 e2"
proof (induction rule: value_variant.induct)
  case (vv_same e)
  show ?case by (rule same_except_value_refl)
next
  case (vv_object i t a cs j)
  show ?case by (rule same_except_value_object)
next
  case (vv_changed i t xs v ys cs v')
  have "list_all2 same_except_value cs cs"
    by (simp add: list_all2_same same_except_value_refl)
  then show ?case
    by (intro same_except_value.intros) (simp_all add: dict_get_def map_add_def split: option.splits)
next
  case (vv_added i t xs ys cs v)
  have "list_all2 same_except_value cs cs"
    by (simp add: list_all2_same same_except_value_refl)
  then show ?case
    by (intro same_except_value.intros) (simp_all add: dict_get_def map_add_def split: option.splits)
next
  case (vv_removed i t xs v ys cs)
  have "list_all2 same_except_value cs cs"
    by (simp add: list_all2_same same_except_value_refl)
  then show ?case
    by (intro same_except_value.intros) (simp_all add: dict_get_def map_add_def split: option.splits)
next
  case (vv_child c c' i t a cs1 cs2)
  have "list_all2 same_except_value (cs1 @ c # cs2) (cs1 @ c' # cs2)"
    using vv_child.IH
    by (intro list_all2_appendI) (simp_all add: list_all2_same same_except_value_refl)
  then show ?case
    by (intro same_except_value.intros) simp_all
next
  case (vv_trans e1 e2 e3)
  then show ?case using same_except_value_trans by blast
qed

text \<open>
  Claim C2, as the code has it. Two page sources that parse to trees identical except for
  \<^verbatim>\<open>value\<close> attributes (changed, added or removed at any nodes), with the other
  attributes of every node in the same order, have the same filtered hash: the same digest,
  or the same exception of the serialiser. This holds for every digest and for every
  serialiser that does not read the identity of the objects, and the two trees may be
  different objects.
\<close>

theorem filtered_hash_ignores_value:
  assumes "value_variant root1 root2"
    and "\<And>e. tostring (unlabel e) = tostring e"
    and "fromstring parse_bytes source1 = Inr root1"
    and "fromstring parse_bytes source2 = Inr root2"
  shows "compute_filtered_hash parse_bytes tostring md5 source1
           = compute_filtered_hash parse_bytes tostring md5 source2"
proof -
  have "tostring (strip_value root1) = tostring (unlabel (strip_value root1))"
    by (simp add: assms(2))
  also have "\<dots> = tostring (unlabel (strip_value root2))"
    by (simp add: strip_value_variant [OF assms(1)])
  also have "\<dots> = tostring (strip_value root2)"
    by (simp add: assms(2))
  finally show ?thesis
    by (simp add: hash_parsed [OF assms(3)] hash_parsed [OF assms(4)])
qed

theorem filtered_hash_ignores_value_witness:
  "value_variant
     (Element 1 ''Field'' [(''name'', ''user''), (''value'', ''al''), (''label'', ''u'')] [])
     (Element 2 ''Field'' [(''name'', ''user''), (''label'', ''u'')] [])
   \<and> compute_filtered_hash
        (\<lambda>data.
           if data = ''<Field'' @ xml_attribute ''name'' ''user'' @ xml_attribute ''value'' ''al''
                       @ xml_attribute ''label'' ''u'' @ '' />''
           then Inr (Element 1 ''Field'' [(''name'', ''user''), (''value'', ''al''), (''label'', ''u'')] [])
           else if data = ''<Field'' @ xml_attribute ''name'' ''user''
                            @ xml_attribute ''label'' ''u'' @ '' />''
           then Inr (Element 2 ''Field'' [(''name'', ''user''), (''label'', ''u'')] [])
           else Inl ParseError)
        (\<lambda>e. Inr (serialise e)) (\<lambda>b. b)
        (map of_char (''<Field'' @ xml_attribute ''name'' ''user'' @ xml_attribute ''value'' ''al''
                        @ xml_attribute ''label'' ''u'' @ '' />''))
     = compute_filtered_hash
        (\<lambda>data.
           if data = ''<Field'' @ xml_attribute ''name'' ''user'' @ xml_attribute ''value'' ''al''
                       @ xml_attribute ''label'' ''u'' @ '' />''
           then Inr (Element 1 ''Field'' [(''name'', ''user''), (''value'', ''al''), (''label'', ''u'')] [])
           else if data = ''<Field'' @ xml_attribute ''name'' ''user''
                            @ xml_attribute ''label'' ''u'' @ '' />''
           then Inr (Element 2 ''Field'' [(''name'', ''user''), (''label'', ''u'')] [])
           else Inl ParseError)
        (\<lambda>e. Inr (serialise e)) (\<lambda>b. b)
        (map of_char (''<Field'' @ xml_attribute ''name'' ''user''
                        @ xml_attribute ''label'' ''u'' @ '' />''))"
proof -
  define doc1 where "doc1 = ''<Field'' @ xml_attribute ''name'' ''user'' @ xml_attribute ''value'' ''al''
                       @ xml_attribute ''label'' ''u'' @ '' />''"
  define doc2 where "doc2 = ''<Field'' @ xml_attribute ''name'' ''user''
                            @ xml_attribute ''label'' ''u'' @ '' />''"
  define e1 where "e1 = Element 1 ''Field'' [(''name'', ''user''), (''value'', ''al''), (''label'', ''u'')] []"
  define e2 where "e2 = Element 2 ''Field'' [(''name'', ''user''), (''label'', ''u'')] []"
  define parse_bytes :: "string \<Rightarrow> error + element" where
    "parse_bytes = (\<lambda>data. if data = doc1 then Inr e1 else if data = doc2 then Inr e2 else Inl ParseError)"
  have enc: "encode (map of_char doc1) = Inr doc1" "encode (map of_char doc2) = Inr doc2"
    by (rule encode_ascii, simp add: doc1_def doc2_def xml_attribute_def double_quote_def)+
  have p1: "fromstring parse_bytes (map of_char doc1) = Inr e1"
    by (simp add: fromstring_def enc parse_bytes_def)
  have "doc2 \<noteq> doc1"
    by (simp add: doc1_def doc2_def xml_attribute_def double_quote_def)
  then have p2: "fromstring parse_bytes (map of_char doc2) = Inr e2"
    by (simp add: fromstring_def enc parse_bytes_def)
  have removed: "value_variant (Element 1 ''Field'' ([(''name'', ''user'')] @ (''value'', ''al'') # [(''label'', ''u'')]) [])
                               (Element 1 ''Field'' ([(''name'', ''user'')] @ [(''label'', ''u'')]) [])"
    by (rule vv_removed)
  have vv: "value_variant e1 e2"
    unfolding e1_def e2_def
    using vv_trans [OF removed vv_object [of 1 "''Field''" "[(''name'', ''user'')] @ [(''label'', ''u'')]" "[]" 2]]
    by simp
  have "compute_filtered_hash parse_bytes (\<lambda>e. Inr (serialise e)) (\<lambda>b. b) (map of_char doc1)
      = compute_filtered_hash parse_bytes (\<lambda>e. Inr (serialise e)) (\<lambda>b. b) (map of_char doc2)"
    using vv _ p1 p2 by (rule filtered_hash_ignores_value) (simp add: serialise_unlabel)
  then show ?thesis
    using vv unfolding parse_bytes_def doc1_def doc2_def e1_def e2_def by blast
qed

text \<open>
  Claim C2 as the specification states it fails. In its data model the attributes of a
  node are a mapping whose order does not count. The two documents
  \<^verbatim>\<open><Field name="user" label="u" value="al" />\<close> and \<^verbatim>\<open><Field label="u" name="user" />\<close>
  have the same tag and the same attributes except for \<^verbatim>\<open>value\<close>, but the bytes that
  are hashed differ, since the serialiser writes the attributes in the order of the
  document and nothing in the function sorts them.
\<close>

theorem filtered_hash_attribute_order:
  "same_except_value
     (Element 1 ''Field'' [(''name'', ''user''), (''label'', ''u''), (''value'', ''al'')] [])
     (Element 2 ''Field'' [(''label'', ''u''), (''name'', ''user'')] [])
   \<and> compute_filtered_hash
        (\<lambda>data.
           if data = ''<Field'' @ xml_attribute ''name'' ''user'' @ xml_attribute ''label'' ''u''
                       @ xml_attribute ''value'' ''al'' @ '' />''
           then Inr (Element 1 ''Field'' [(''name'', ''user''), (''label'', ''u''), (''value'', ''al'')] [])
           else if data = ''<Field'' @ xml_attribute ''label'' ''u''
                            @ xml_attribute ''name'' ''user'' @ '' />''
           then Inr (Element 2 ''Field'' [(''label'', ''u''), (''name'', ''user'')] [])
           else Inl ParseError)
        (\<lambda>e. Inr (serialise e)) (\<lambda>b. b)
        (map of_char (''<Field'' @ xml_attribute ''name'' ''user'' @ xml_attribute ''label'' ''u''
                        @ xml_attribute ''value'' ''al'' @ '' />''))
       = Inr (''<Field'' @ xml_attribute ''name'' ''user'' @ xml_attribute ''label'' ''u'' @ '' />'')
   \<and> compute_filtered_hash
        (\<lambda>data.
           if data = ''<Field'' @ xml_attribute ''name'' ''user'' @ xml_attribute ''label'' ''u''
                       @ xml_attribute ''value'' ''al'' @ '' />''
           then Inr (Element 1 ''Field'' [(''name'', ''user''), (''label'', ''u''), (''value'', ''al'')] [])
           else if data = ''<Field'' @ xml_attribute ''label'' ''u''
                            @ xml_attribute ''name'' ''user'' @ '' />''
           then Inr (Element 2 ''Field'' [(''label'', ''u''), (''name'', ''user'')] [])
           else Inl ParseError)
        (\<lambda>e. Inr (serialise e)) (\<lambda>b. b)
        (map of_char (''<Field'' @ xml_attribute ''label'' ''u''
                        @ xml_attribute ''name'' ''user'' @ '' />''))
       = Inr (''<Field'' @ xml_attribute ''label'' ''u'' @ xml_attribute ''name'' ''user'' @ '' />'')
   \<and> ''<Field'' @ xml_attribute ''name'' ''user'' @ xml_attribute ''label'' ''u'' @ '' />''
       \<noteq> ''<Field'' @ xml_attribute ''label'' ''u'' @ xml_attribute ''name'' ''user'' @ '' />''"
proof -
  define doc1 where "doc1 = ''<Field'' @ xml_attribute ''name'' ''user'' @ xml_attribute ''label'' ''u''
                       @ xml_attribute ''value'' ''al'' @ '' />''"
  define doc2 where "doc2 = ''<Field'' @ xml_attribute ''label'' ''u''
                            @ xml_attribute ''name'' ''user'' @ '' />''"
  define e1 where "e1 = Element 1 ''Field'' [(''name'', ''user''), (''label'', ''u''), (''value'', ''al'')] []"
  define e2 where "e2 = Element 2 ''Field'' [(''label'', ''u''), (''name'', ''user'')] []"
  define parse_bytes :: "string \<Rightarrow> error + element" where
    "parse_bytes = (\<lambda>data. if data = doc1 then Inr e1 else if data = doc2 then Inr e2 else Inl ParseError)"
  have enc: "encode (map of_char doc1) = Inr doc1" "encode (map of_char doc2) = Inr doc2"
    by (rule encode_ascii, simp add: doc1_def doc2_def xml_attribute_def double_quote_def)+
  have p1: "fromstring parse_bytes (map of_char doc1) = Inr e1"
    by (simp add: fromstring_def enc parse_bytes_def)
  have "doc2 \<noteq> doc1"
    by (simp add: doc1_def doc2_def xml_attribute_def double_quote_def)
  then have p2: "fromstring parse_bytes (map of_char doc2) = Inr e2"
    by (simp add: fromstring_def enc parse_bytes_def)
  have same: "same_except_value e1 e2"
    unfolding e1_def e2_def
    by (rule same_except_value.intros) (auto simp: dict_get_def)
  have h1: "compute_filtered_hash parse_bytes (\<lambda>e. Inr (serialise e)) (\<lambda>b. b) (map of_char doc1)
      = Inr (''<Field'' @ xml_attribute ''name'' ''user'' @ xml_attribute ''label'' ''u'' @ '' />'')"
    by (simp add: hash_parsed [OF p1]) (simp add: e1_def dict_contains_def xml_attribute_def)
  have h2: "compute_filtered_hash parse_bytes (\<lambda>e. Inr (serialise e)) (\<lambda>b. b) (map of_char doc2)
      = Inr (''<Field'' @ xml_attribute ''label'' ''u'' @ xml_attribute ''name'' ''user'' @ '' />'')"
    by (simp add: hash_parsed [OF p2]) (simp add: e2_def dict_contains_def xml_attribute_def)
  have ne: "''<Field'' @ xml_attribute ''name'' ''user'' @ xml_attribute ''label'' ''u'' @ '' />''
       \<noteq> ''<Field'' @ xml_attribute ''label'' ''u'' @ xml_attribute ''name'' ''user'' @ '' />''"
    by (simp add: xml_attribute_def)
  show ?thesis
    using same h1 h2 ne unfolding parse_bytes_def doc1_def doc2_def e1_def e2_def by blast
qed


text \<open>
  Claim C8, as the code has it. When the parser raises \<^verbatim>\<open>ParseError\<close>, the page source
  has a UTF-8 encoding and the filtered hash is the digest of these raw bytes. When the
  page source cannot be encoded, the function fails with \<^verbatim>\<open>UnicodeEncodeError\<close>. Every
  result the function returns is a value of the digest function.
\<close>

theorem malformed_source_hash:
  "(fromstring parse_bytes page_source = Inl ParseError \<longrightarrow>
      (\<exists>data. encode page_source = Inr data
         \<and> compute_filtered_hash parse_bytes tostring md5 page_source = Inr (md5 data)))
   \<and> (encode page_source = Inl e \<longrightarrow>
      compute_filtered_hash parse_bytes tostring md5 page_source = Inl UnicodeEncodeError)
   \<and> (compute_filtered_hash parse_bytes tostring md5 page_source = Inr h \<longrightarrow> h \<in> range md5)"
proof (intro conjI impI)
  assume "fromstring parse_bytes page_source = Inl ParseError"
  then show "\<exists>data. encode page_source = Inr data
         \<and> compute_filtered_hash parse_bytes tostring md5 page_source = Inr (md5 data)"
    using hash_parse_error by blast
next
  assume "encode page_source = Inl e"
  then show "compute_filtered_hash parse_bytes tostring md5 page_source = Inl UnicodeEncodeError"
    by (rule hash_encode_error)
next
  assume "compute_filtered_hash parse_bytes tostring md5 page_source = Inr h"
  then show "h \<in> range md5"
    by (auto simp: compute_filtered_hash_def split: sum.splits if_splits)
qed

theorem malformed_source_hash_witness:
  "compute_filtered_hash (\<lambda>data. Inl ParseError) (\<lambda>e. Inr (serialise e)) (\<lambda>b. ''md5:'' @ b)
     (map of_char ''<a><b></a>'') = Inr ''md5:<a><b></a>''
   \<and> compute_filtered_hash (\<lambda>data. Inl ParseError) (\<lambda>e. Inr (serialise e)) (\<lambda>b. ''md5:'' @ b)
     (map of_char ''<a>'' @ [0xD800] @ map of_char ''</a>'') = Inl UnicodeEncodeError"
proof (intro conjI)
  have enc: "encode (map of_char ''<a><b></a>'') = Inr ''<a><b></a>''"
    by (rule encode_ascii) simp
  then have "fromstring (\<lambda>data. Inl ParseError) (map of_char ''<a><b></a>'') = Inl ParseError"
    by (simp add: fromstring_def)
  then obtain data where "encode (map of_char ''<a><b></a>'') = Inr data"
    and "compute_filtered_hash (\<lambda>data. Inl ParseError) (\<lambda>e. Inr (serialise e)) (\<lambda>b. ''md5:'' @ b)
           (map of_char ''<a><b></a>'') = Inr (''md5:'' @ data)"
    using malformed_source_hash [of "\<lambda>data. Inl ParseError" "map of_char ''<a><b></a>''"
        "\<lambda>e. Inr (serialise e)" "\<lambda>b. ''md5:'' @ b"]
    by blast
  then show "compute_filtered_hash (\<lambda>data. Inl ParseError) (\<lambda>e. Inr (serialise e)) (\<lambda>b. ''md5:'' @ b)
     (map of_char ''<a><b></a>'') = Inr ''md5:<a><b></a>''"
    using enc by simp
next
  have "encode (map of_char ''<a>'' @ 0xD800 # map of_char ''</a>'') = Inl UnicodeEncodeError"
    by (rule encode_surrogate) simp_all
  then show "compute_filtered_hash (\<lambda>data. Inl ParseError) (\<lambda>e. Inr (serialise e)) (\<lambda>b. ''md5:'' @ b)
     (map of_char ''<a>'' @ [0xD800] @ map of_char ''</a>'') = Inl UnicodeEncodeError"
    using malformed_source_hash [of "\<lambda>data. Inl ParseError"
        "map of_char ''<a>'' @ [0xD800] @ map of_char ''</a>''"
        "\<lambda>e. Inr (serialise e)" "\<lambda>b. ''md5:'' @ b" UnicodeEncodeError]
    by simp
qed

text \<open>
  Claim C8 as the specification states it fails. The text \<^verbatim>\<open><a>\<close>, a lone surrogate
  (code point D800), \<^verbatim>\<open></a>\<close> cannot be parsed: \<^verbatim>\<open>ET.fromstring\<close> raises
  \<^verbatim>\<open>UnicodeEncodeError\<close>, which \<^verbatim>\<open>except ET.ParseError\<close> does not catch, and the function
  fails instead of hashing the raw text.
\<close>

theorem lone_surrogate_not_caught:
  "fromstring (\<lambda>data. Inl ParseError) (map of_char ''<a>'' @ [0xD800] @ map of_char ''</a>'')
     = Inl UnicodeEncodeError
   \<and> compute_filtered_hash (\<lambda>data. Inl ParseError) (\<lambda>e. Inr (serialise e)) (\<lambda>b. ''md5:'' @ b)
     (map of_char ''<a>'' @ [0xD800] @ map of_char ''</a>'') = Inl UnicodeEncodeError"
proof -
  have "encode (map of_char ''<a>'' @ 0xD800 # map of_char ''</a>'') = Inl UnicodeEncodeError"
    by (rule encode_surrogate) simp_all
  then have "encode (map of_char ''<a>'' @ [0xD800] @ map of_char ''</a>'') = Inl UnicodeEncodeError"
    by simp
  then show ?thesis
    by (simp only: fromstring_def compute_filtered_hash_def sum.case) simp
qed

lemma observe_all_flags:
  "fst (observe_all st hs) =
     map (\<lambda>i. fst (hs ! i) \<notin> saved_hashes st \<union> fst ` set (take i hs)) [0..<length hs]"
proof (induction hs arbitrary: st)
  case Nil
  show ?case by simp
next
  case (Cons p hs)
  obtain h src where p: "p = (h, src)" by (cases p)
  obtain b st' where o: "observe st h src = (b, st')" by (cases "observe st h src")
  have b: "b = (h \<notin> saved_hashes st)" and s: "saved_hashes st' = insert h (saved_hashes st)"
    using o by (auto simp: observe_def Let_def split: if_splits)
  have "fst (observe_all st (p # hs)) = b # fst (observe_all st' hs)"
    by (simp add: p o split: prod.splits)
  also have "\<dots> = b # map (\<lambda>i. fst (hs ! i) \<notin> saved_hashes st' \<union> fst ` set (take i hs)) [0..<length hs]"
    by (simp only: Cons.IH)
  also have "\<dots> = map (\<lambda>i. fst ((p # hs) ! i) \<notin> saved_hashes st \<union> fst ` set (take i (p # hs)))
                      [0..<length (p # hs)]"
    by (auto simp add: map_upt_Suc b s p simp del: upt_Suc)
  finally show ?case .
qed

lemma first_occurrence_unique:
  assumes "v \<in> set xs"
  shows "\<exists>!i. i < length xs \<and> xs ! i = v \<and> v \<notin> set (take i xs)"
proof -
  define k where "k = (LEAST i. i < length xs \<and> xs ! i = v)"
  obtain j where j: "j < length xs" "xs ! j = v"
    using assms by (auto simp: in_set_conv_nth)
  have k: "k < length xs \<and> xs ! k = v"
    unfolding k_def using j by (intro LeastI [of "\<lambda>i. i < length xs \<and> xs ! i = v" j]) simp
  have least: "k \<le> i" if "i < length xs" "xs ! i = v" for i
    unfolding k_def using that by (intro Least_le) simp
  have fresh: "v \<notin> set (take k xs)"
  proof
    assume "v \<in> set (take k xs)"
    then obtain i where "i < k" "xs ! i = v"
      using k by (auto simp: in_set_conv_nth)
    then show False using least [of i] k by simp
  qed
  show ?thesis
  proof (rule ex1I [of _ k])
    show "k < length xs \<and> xs ! k = v \<and> v \<notin> set (take k xs)"
      using k fresh by simp
  next
    fix i assume i: "i < length xs \<and> xs ! i = v \<and> v \<notin> set (take i xs)"
    have "k \<le> i" using least i by simp
    moreover have "\<not> k < i"
    proof
      assume "k < i"
      then have "xs ! k \<in> set (take i xs)"
        using i by (auto simp: in_set_conv_nth intro!: exI [of _ k])
      then show False using k i by simp
    qed
    ultimately show "i = k" by simp
  qed
qed

text \<open>
  Claim C3. On a fingerprint that is not in the store, \<open>observe\<close> takes the saving branch
  and inserts it; on one that is in the store it takes the skipping branch and leaves the
  state as it is. Fed with a sequence of fingerprints from the empty store, the flag of
  round \<open>i\<close> is true exactly when the fingerprint did not occur before round \<open>i\<close>, so
  each fingerprint value of the sequence has exactly one round with a true flag.
\<close>

theorem observe_novel_once:
  "(h \<notin> saved_hashes st \<longrightarrow>
      fst (observe st h src) \<and> saved_hashes (snd (observe st h src)) = insert h (saved_hashes st))
   \<and> (h \<in> saved_hashes st \<longrightarrow> observe st h src = (False, st))
   \<and> fst (observe_all initial_capture_state hs) =
         map (\<lambda>i. fst (hs ! i) \<notin> fst ` set (take i hs)) [0..<length hs]
   \<and> (\<forall>v \<in> fst ` set hs.
         \<exists>!i. i < length hs \<and> fst (hs ! i) = v \<and> fst (observe_all initial_capture_state hs) ! i)"
proof -
  have step: "(h \<notin> saved_hashes st \<longrightarrow>
      fst (observe st h src) \<and> saved_hashes (snd (observe st h src)) = insert h (saved_hashes st))
   \<and> (h \<in> saved_hashes st \<longrightarrow> observe st h src = (False, st))"
    by (simp add: observe_def Let_def)
  have flags: "fst (observe_all initial_capture_state hs) =
         map (\<lambda>i. fst (hs ! i) \<notin> fst ` set (take i hs)) [0..<length hs]"
    by (simp add: observe_all_flags initial_capture_state_def)
  have once: "\<exists>!i. i < length hs \<and> fst (hs ! i) = v \<and> fst (observe_all initial_capture_state hs) ! i"
    if "v \<in> fst ` set hs" for v
  proof -
    have "v \<in> set (map fst hs)" using that by simp
    from first_occurrence_unique [OF this]
    have "\<exists>!i. i < length hs \<and> fst (hs ! i) = v \<and> v \<notin> fst ` set (take i hs)"
      by (simp add: take_map cong: conj_cong)
    moreover have "(i < length hs \<and> fst (hs ! i) = v \<and> v \<notin> fst ` set (take i hs))
        = (i < length hs \<and> fst (hs ! i) = v \<and> fst (observe_all initial_capture_state hs) ! i)" for i
      by (cases "i < length hs") (auto simp: flags image_iff Bex_def)
    ultimately show ?thesis by simp
  qed
  show ?thesis using step flags once by blast
qed

theorem observe_novel_once_witness:
  "fst (observe initial_capture_state ''h1'' ''p'')
   \<and> saved_hashes (snd (observe initial_capture_state ''h1'' ''p'')) = {''h1''}
   \<and> fst (observe_all initial_capture_state [(''h1'', ''p''), (''h2'', ''q''), (''h1'', ''r'')])
       = [True, True, False]"
  using observe_novel_once [of "''h1''" initial_capture_state "''p''"
      "[(''h1'', ''p''), (''h2'', ''q''), (''h1'', ''r'')]"]
  by (simp add: upt_conv_Cons initial_capture_state_def)

section \<open>Classification\<close>

lemma lower_char_true:
  "lower_char c = CHR ''t'' \<longleftrightarrow> same_letter c CHR ''t''"
  "lower_char c = CHR ''r'' \<longleftrightarrow> same_letter c CHR ''r''"
  "lower_char c = CHR ''u'' \<longleftrightarrow> same_letter c CHR ''u''"
  "lower_char c = CHR ''e'' \<longleftrightarrow> same_letter c CHR ''e''"
  by (auto simp: lower_char_def same_letter_def)

lemma str_lower_true: "str_lower s = ''true'' \<longleftrightarrow> case_insensitive_equal s ''true''"
  by (auto simp: str_lower_def case_insensitive_equal_def list_all2_Cons2 lower_char_true
      map_eq_Cons_conv)

lemma dict_contains_get: "dict_contains k d \<longleftrightarrow> dict_get d k \<noteq> None"
  by (simp add: dict_contains_def dict_get_def map_of_eq_None_iff)

lemma state_flag:
  "(if \<not> dict_contains k d then True else str_lower (dict_get_default d k []) = ''true'')
     = true_or_absent (dict_get d k)"
  by (cases "map_of d k")
     (simp_all add: dict_contains_get true_or_absent_def dict_get_def dict_get_default_def
        str_lower_true)

text \<open>
  Claim C5. \<open>classify_element\<close> answers \<^verbatim>\<open>Interactive\<close> exactly when the tag is one of
  \<open>INTERACTIVE_TAGS\<close> and each of \<^verbatim>\<open>enabled\<close> and \<^verbatim>\<open>visible\<close> is absent or
  case-insensitively equal to \<^verbatim>\<open>true\<close>; otherwise it answers \<^verbatim>\<open>Non-Interactive\<close>.
\<close>

theorem classify_element_rule:
  "(classify_element elem = ''Interactive'' \<longleftrightarrow>
      tag elem \<in> INTERACTIVE_TAGS
      \<and> true_or_absent (dict_get (attrib elem) ''enabled'')
      \<and> true_or_absent (dict_get (attrib elem) ''visible''))
   \<and> (classify_element elem = ''Non-Interactive'' \<longleftrightarrow>
      \<not> (tag elem \<in> INTERACTIVE_TAGS
         \<and> true_or_absent (dict_get (attrib elem) ''enabled'')
         \<and> true_or_absent (dict_get (attrib elem) ''visible'')))"
  unfolding classify_element_def Let_def state_flag by simp

theorem classify_element_rule_witness:
  "classify_element (Element 1 ''XCUIElementTypeButton'' [(''name'', ''OK'')] []) = ''Interactive''
   \<and> classify_element
        (Element 1 ''XCUIElementTypeButton'' [(''name'', ''OK''), (''enabled'', ''false'')] [])
        = ''Non-Interactive''
   \<and> classify_element
        (Element 1 ''XCUIElementTypeButton'' [(''enabled'', ''TRUE''), (''visible'', ''True'')] [])
        = ''Interactive''
   \<and> classify_element (Element 1 ''XCUIElementTypeOther'' [] []) = ''Non-Interactive''"
  using classify_element_rule [of "Element 1 ''XCUIElementTypeButton'' [(''name'', ''OK'')] []"]
    classify_element_rule
      [of "Element 1 ''XCUIElementTypeButton'' [(''name'', ''OK''), (''enabled'', ''false'')] []"]
    classify_element_rule
      [of "Element 1 ''XCUIElementTypeButton'' [(''enabled'', ''TRUE''), (''visible'', ''True'')] []"]
    classify_element_rule [of "Element 1 ''XCUIElementTypeOther'' [] []"]
  by (simp add: INTERACTIVE_TAGS_def true_or_absent_def dict_get_def case_insensitive_equal_def
      same_letter_def)

section \<open>Locator candidates\<close>

lemma truthy_py_str: "truthy v \<Longrightarrow> py_str v = the v"
  by (cases v) (auto simp: truthy_def py_str_def)

lemma truthy_iff: "truthy v \<longleftrightarrow> \<not> absent_or_empty v"
  by (cases v) (auto simp: truthy_def absent_or_empty_def)

lemma candidates_unfold:
  "get_ios_class_chain_candidates (Element i t a cs) =
     (if truthy (dict_get a ''name'')
      then [''**/'' @ t @ ''[@name='' @ quote @ the (dict_get a ''name'') @ quote @ '']''] else [])
     @ (if truthy (dict_get a ''label'')
           \<and> (\<not> truthy (dict_get a ''name'') \<or> dict_get a ''label'' \<noteq> dict_get a ''name'')
        then [''**/'' @ t @ ''[@label='' @ quote @ the (dict_get a ''label'') @ quote @ '']''] else [])
     @ (if truthy (dict_get a ''value'')
        then [''**/'' @ t @ ''[@value='' @ quote @ the (dict_get a ''value'') @ quote @ '']''] else [])
     @ (if truthy (dict_get a ''name'') \<and> truthy (dict_get a ''label'')
        then [''**/'' @ t @ ''[@name='' @ quote @ the (dict_get a ''name'') @ quote
               @ '' and @label='' @ quote @ the (dict_get a ''label'') @ quote @ '']''] else [])"
  unfolding get_ios_class_chain_candidates_def Let_def element.sel
  by (cases "truthy (dict_get a ''name'')"; cases "truthy (dict_get a ''label'')";
      cases "truthy (dict_get a ''value'')") (simp_all add: truthy_py_str)

lemma class_chain_one:
  "class_chain t [(k, v)] = ''**/'' @ t @ ''[@'' @ k @ ''='' @ quote @ v @ quote @ '']''"
  by (simp add: class_chain_def)

lemma class_chain_two:
  "class_chain t [(k, v), (k', v')] =
     ''**/'' @ t @ ''[@'' @ k @ ''='' @ quote @ v @ quote
       @ '' and @'' @ k' @ ''='' @ quote @ v' @ quote @ '']''"
  by (simp add: class_chain_def)

lemma candidates_example:
  "get_ios_class_chain_candidates (Element i ''Btn'' [(''name'', ''a''), (''label'', ''a'')] cs)
       = [''**/Btn[@name='' @ quote @ ''a'' @ quote @ '']'',
          ''**/Btn[@name='' @ quote @ ''a'' @ quote @ '' and @label='' @ quote @ ''a'' @ quote @ '']'']"
  by (simp add: candidates_unfold dict_get_def truthy_def)

lemma candidates_by_rules:
  "get_ios_class_chain_candidates elem =
     (let name = dict_get (attrib elem) ''name'';
          label = dict_get (attrib elem) ''label'';
          val = dict_get (attrib elem) ''value''
      in (if truthy name then [class_chain (tag elem) [(''name'', the name)]] else [])
         @ (if truthy label \<and> (\<not> truthy name \<or> label \<noteq> name)
            then [class_chain (tag elem) [(''label'', the label)]] else [])
         @ (if truthy val then [class_chain (tag elem) [(''value'', the val)]] else [])
         @ (if truthy name \<and> truthy label
            then [class_chain (tag elem) [(''name'', the name), (''label'', the label)]] else []))"
proof (cases elem)
  case (Element i t a cs)
  show ?thesis
    unfolding Element candidates_unfold class_chain_one class_chain_two Let_def element.sel
    by simp
qed

text \<open>
  Claim C6. The candidates of an element are what four rules give, in this order, each
  rule giving one candidate of the template or none: the name; the label, when the name is
  not given or differs from the label; the value; the name together with the label. An
  attribute is given when it is present and not empty (the truth test of the code). An
  element \<^verbatim>\<open>Btn\<close> with name \<^verbatim>\<open>a\<close> and label \<^verbatim>\<open>a\<close> has the two candidates
  \<^verbatim>\<open>**/Btn[@name='a']\<close> and \<^verbatim>\<open>**/Btn[@name='a' and @label='a']\<close>, in this order.
\<close>

theorem candidates_rules:
  "get_ios_class_chain_candidates elem =
     (let name = dict_get (attrib elem) ''name'';
          label = dict_get (attrib elem) ''label'';
          val = dict_get (attrib elem) ''value''
      in (if truthy name then [class_chain (tag elem) [(''name'', the name)]] else [])
         @ (if truthy label \<and> (\<not> truthy name \<or> label \<noteq> name)
            then [class_chain (tag elem) [(''label'', the label)]] else [])
         @ (if truthy val then [class_chain (tag elem) [(''value'', the val)]] else [])
         @ (if truthy name \<and> truthy label
            then [class_chain (tag elem) [(''name'', the name), (''label'', the label)]] else []))
   \<and> get_ios_class_chain_candidates (Element i ''Btn'' [(''name'', ''a''), (''label'', ''a'')] cs)
       = [''**/Btn[@name='' @ quote @ ''a'' @ quote @ '']'',
          ''**/Btn[@name='' @ quote @ ''a'' @ quote @ '' and @label='' @ quote @ ''a'' @ quote @ '']'']"
  using candidates_by_rules [of elem] candidates_example [of i cs]
  by (rule conjI)

theorem candidates_rules_witness:
  "get_ios_class_chain_candidates
     (Element 4 ''Btn'' [(''name'', ''n''), (''label'', ''l''), (''value'', ''v'')] [])
     = [class_chain ''Btn'' [(''name'', ''n'')],
        class_chain ''Btn'' [(''label'', ''l'')],
        class_chain ''Btn'' [(''value'', ''v'')],
        class_chain ''Btn'' [(''name'', ''n''), (''label'', ''l'')]]
   \<and> get_ios_class_chain_candidates (Element 4 ''Btn'' [(''name'', ''a''), (''label'', ''a'')] [])
       = [''**/Btn[@name='' @ quote @ ''a'' @ quote @ '']'',
          ''**/Btn[@name='' @ quote @ ''a'' @ quote @ '' and @label='' @ quote @ ''a'' @ quote @ '']'']"
proof (intro conjI)
  have "get_ios_class_chain_candidates
      (Element 4 ''Btn'' [(''name'', ''n''), (''label'', ''l''), (''value'', ''v'')] [])
    = (let name = dict_get (attrib (Element 4 ''Btn'' [(''name'', ''n''), (''label'', ''l''), (''value'', ''v'')] [])) ''name'';
          label = dict_get (attrib (Element 4 ''Btn'' [(''name'', ''n''), (''label'', ''l''), (''value'', ''v'')] [])) ''label'';
          val = dict_get (attrib (Element 4 ''Btn'' [(''name'', ''n''), (''label'', ''l''), (''value'', ''v'')] [])) ''value''
      in (if truthy name then [class_chain (tag (Element 4 ''Btn'' [(''name'', ''n''), (''label'', ''l''), (''value'', ''v'')] [])) [(''name'', the name)]] else [])
         @ (if truthy label \<and> (\<not> truthy name \<or> label \<noteq> name)
            then [class_chain (tag (Element 4 ''Btn'' [(''name'', ''n''), (''label'', ''l''), (''value'', ''v'')] [])) [(''label'', the label)]] else [])
         @ (if truthy val then [class_chain (tag (Element 4 ''Btn'' [(''name'', ''n''), (''label'', ''l''), (''value'', ''v'')] [])) [(''value'', the val)]] else [])
         @ (if truthy name \<and> truthy label
            then [class_chain (tag (Element 4 ''Btn'' [(''name'', ''n''), (''label'', ''l''), (''value'', ''v'')] [])) [(''name'', the name), (''label'', the label)]] else []))"
    using candidates_rules [of "Element 4 ''Btn'' [(''name'', ''n''), (''label'', ''l''), (''value'', ''v'')] []" 4 "[]"]
    by (rule conjunct1)
  also have "\<dots> = [class_chain ''Btn'' [(''name'', ''n'')],
        class_chain ''Btn'' [(''label'', ''l'')],
        class_chain ''Btn'' [(''value'', ''v'')],
        class_chain ''Btn'' [(''name'', ''n''), (''label'', ''l'')]]"
    by (simp add: Let_def dict_get_def truthy_def)
  finally show "get_ios_class_chain_candidates
     (Element 4 ''Btn'' [(''name'', ''n''), (''label'', ''l''), (''value'', ''v'')] [])
     = [class_chain ''Btn'' [(''name'', ''n'')],
        class_chain ''Btn'' [(''label'', ''l'')],
        class_chain ''Btn'' [(''value'', ''v'')],
        class_chain ''Btn'' [(''name'', ''n''), (''label'', ''l'')]]" .
  show "get_ios_class_chain_candidates (Element 4 ''Btn'' [(''name'', ''a''), (''label'', ''a'')] [])
       = [''**/Btn[@name='' @ quote @ ''a'' @ quote @ '']'',
          ''**/Btn[@name='' @ quote @ ''a'' @ quote @ '' and @label='' @ quote @ ''a'' @ quote @ '']'']"
    using candidates_rules [of "Element 4 ''Btn'' [] []" 4 "[]"]
    by (rule conjunct2)
qed

lemma dict_get_delete: "dict_get (AList.delete k a) k' = (if k' = k then None else dict_get a k')"
  by (simp add: dict_get_def delete_conv')

lemma candidates_none:
  "absent_or_empty (dict_get a ''name'') \<Longrightarrow> absent_or_empty (dict_get a ''label'')
     \<Longrightarrow> absent_or_empty (dict_get a ''value'')
     \<Longrightarrow> get_ios_class_chain_candidates (Element i t a cs) = []"
  by (simp add: candidates_unfold truthy_iff)

lemma candidates_empty_deleted:
  assumes "k \<in> {''name'', ''label'', ''value''}" and "dict_get a k = Some []"
  shows "get_ios_class_chain_candidates (Element i t a cs)
          = get_ios_class_chain_candidates (Element i t (AList.delete k a) cs)"
proof -
  have t: "\<not> truthy (dict_get a k)" "\<not> truthy None"
    using assms(2) by (simp_all add: truthy_def)
  consider "k = ''name''" | "k = ''label''" | "k = ''value''"
    using assms(1) by auto
  then show ?thesis
  proof cases
    case 1
    then show ?thesis using t by (simp add: candidates_unfold dict_get_delete)
  next
    case 2
    then show ?thesis using t by (simp add: candidates_unfold dict_get_delete)
  next
    case 3
    then show ?thesis using t by (simp add: candidates_unfold dict_get_delete)
  qed
qed

lemma candidates_no_name:
  "absent_or_empty (dict_get a ''name'')
     \<Longrightarrow> get_ios_class_chain_candidates (Element i t a cs)
          = (if absent_or_empty (dict_get a ''label'') then []
             else [''**/'' @ t @ ''[@label='' @ quote @ the (dict_get a ''label'') @ quote @ '']''])
            @ (if absent_or_empty (dict_get a ''value'') then []
               else [''**/'' @ t @ ''[@value='' @ quote @ the (dict_get a ''value'') @ quote @ '']''])"
  by (simp add: candidates_unfold truthy_iff)

text \<open>
  Claim C9. An attribute that is present with the empty string counts as absent: when
  each of name, label and value is absent or empty there is no candidate; an element with
  an empty name, label or value has the candidates of the same element without that
  attribute; and when the name is absent or empty the only candidates are the one by
  label and the one by value (none by name, none by name and label).
\<close>

theorem empty_attribute_as_absent:
  "(absent_or_empty (dict_get a ''name'') \<and> absent_or_empty (dict_get a ''label'')
      \<and> absent_or_empty (dict_get a ''value'')
     \<longrightarrow> get_ios_class_chain_candidates (Element i t a cs) = [])
   \<and> (k \<in> {''name'', ''label'', ''value''} \<and> dict_get a k = Some []
     \<longrightarrow> get_ios_class_chain_candidates (Element i t a cs)
          = get_ios_class_chain_candidates (Element i t (AList.delete k a) cs))
   \<and> (absent_or_empty (dict_get a ''name'')
     \<longrightarrow> get_ios_class_chain_candidates (Element i t a cs)
          = (if absent_or_empty (dict_get a ''label'') then []
             else [''**/'' @ t @ ''[@label='' @ quote @ the (dict_get a ''label'') @ quote @ '']''])
            @ (if absent_or_empty (dict_get a ''value'') then []
               else [''**/'' @ t @ ''[@value='' @ quote @ the (dict_get a ''value'') @ quote @ '']'']))"
  using candidates_none [of a i t cs] candidates_empty_deleted [of k a i t cs]
    candidates_no_name [of a i t cs]
  by blast

theorem empty_attribute_as_absent_witness:
  "get_ios_class_chain_candidates (Element 1 ''Btn'' [(''name'', []), (''x'', ''3'')] []) = []
   \<and> get_ios_class_chain_candidates (Element 1 ''Btn'' [(''name'', []), (''label'', ''go'')] [])
      = get_ios_class_chain_candidates (Element 1 ''Btn'' [(''label'', ''go'')] [])
   \<and> get_ios_class_chain_candidates (Element 1 ''Btn'' [(''name'', []), (''label'', ''go'')] [])
      = [''**/Btn[@label='' @ quote @ ''go'' @ quote @ '']'']"
proof (intro conjI)
  show "get_ios_class_chain_candidates (Element 1 ''Btn'' [(''name'', []), (''x'', ''3'')] []) = []"
    using empty_attribute_as_absent [of "[(''name'', []), (''x'', ''3'')]" 1 "''Btn''" "[]" "''name''"]
    by (simp add: absent_or_empty_def dict_get_def)
  show "get_ios_class_chain_candidates (Element 1 ''Btn'' [(''name'', []), (''label'', ''go'')] [])
      = get_ios_class_chain_candidates (Element 1 ''Btn'' [(''label'', ''go'')] [])"
    using empty_attribute_as_absent [of "[(''name'', []), (''label'', ''go'')]" 1 "''Btn''" "[]" "''name''"]
    by (simp add: absent_or_empty_def dict_get_def)
  show "get_ios_class_chain_candidates (Element 1 ''Btn'' [(''name'', []), (''label'', ''go'')] [])
      = [''**/Btn[@label='' @ quote @ ''go'' @ quote @ '']'']"
  proof -
    have "absent_or_empty (dict_get [(''name'', []), (''label'', ''go'')] ''name'')"
      by (simp add: absent_or_empty_def dict_get_def)
    then have "get_ios_class_chain_candidates (Element 1 ''Btn'' [(''name'', []), (''label'', ''go'')] [])
      = (if absent_or_empty (dict_get [(''name'', []), (''label'', ''go'')] ''label'') then []
         else [''**/'' @ ''Btn'' @ ''[@label='' @ quote
                 @ the (dict_get [(''name'', []), (''label'', ''go'')] ''label'') @ quote @ '']''])
        @ (if absent_or_empty (dict_get [(''name'', []), (''label'', ''go'')] ''value'') then []
           else [''**/'' @ ''Btn'' @ ''[@value='' @ quote
                   @ the (dict_get [(''name'', []), (''label'', ''go'')] ''value'') @ quote @ '']''])"
      using empty_attribute_as_absent [of "[(''name'', []), (''label'', ''go'')]" 1 "''Btn''" "[]" "''name''"]
      by blast
    then show ?thesis
      by (simp add: absent_or_empty_def dict_get_def)
  qed
qed

section \<open>Absolute paths\<close>

lemma index_of_None_iff: "index_of xs x = None \<longleftrightarrow> x \<notin> set xs"
  by (induction xs) auto

lemma find_parent_Some:
  "find_parent root c = Some p \<Longrightarrow> p \<in> set (iter root) \<and> c \<in> set (children p)"
  by (auto simp: find_parent_def find_Some_iff)

lemma root_in_iter: "root \<in> set (iter root)"
  by (cases root) simp

lemma child_in_iter: "p \<in> set (iter root) \<Longrightarrow> c \<in> set (children p) \<Longrightarrow> c \<in> set (iter root)"
proof (induction root)
  case (Element i t a cs)
  show ?case
  proof (cases "p = Element i t a cs")
    case True
    then have "c \<in> set cs" using Element.prems(2) by simp
    then show ?thesis using root_in_iter [of c] by auto
  next
    case False
    then obtain k where "k \<in> set cs" "p \<in> set (iter k)"
      using Element.prems(1) by auto
    then show ?thesis using Element.IH Element.prems(2) by auto
  qed
qed

lemma parent_in_iter:
  "e \<in> set (iter root) \<Longrightarrow> e \<noteq> root \<Longrightarrow> \<exists>p \<in> set (iter root). e \<in> set (children p)"
proof (induction root)
  case (Element i t a cs)
  then obtain k where k: "k \<in> set cs" "e \<in> set (iter k)"
    by auto
  show ?case
  proof (cases "e = k")
    case True
    then show ?thesis using k(1) by (intro bexI [of _ "Element i t a cs"]) simp_all
  next
    case False
    then obtain p where "p \<in> set (iter k)" "e \<in> set (children p)"
      using Element.IH k by blast
    then show ?thesis using k(1) by (intro bexI [of _ p]) auto
  qed
qed

lemma find_parent_None_iff:
  "find_parent root e = None \<longleftrightarrow> e = root \<or> e \<notin> set (iter root)"
proof
  assume none: "find_parent root e = None"
  show "e = root \<or> e \<notin> set (iter root)"
  proof (rule ccontr)
    assume "\<not> (e = root \<or> e \<notin> set (iter root))"
    then obtain p where "p \<in> set (iter root)" "e \<in> set (children p)"
      using parent_in_iter by blast
    then show False using none by (auto simp: find_parent_def find_None_iff)
  qed
next
  assume "e = root \<or> e \<notin> set (iter root)"
  then show "find_parent root e = None"
  proof
    assume "e \<notin> set (iter root)"
    then show ?thesis
      using find_parent_Some [of root e] child_in_iter [of _ root e]
      by (cases "find_parent root e") auto
  next
    assume e: "e = root"
    show ?thesis
    proof (cases "find_parent root e")
      case None
      then show ?thesis .
    next
      case (Some p)
      then have p: "p \<in> set (iter root)" "root \<in> set (children p)"
        using find_parent_Some e by auto
      have le: "size q \<le> size r" if "q \<in> set (iter r)" for q r
        using that
      proof (induction r arbitrary: q)
        case (Element i t a cs)
        show ?case
        proof (cases "q = Element i t a cs")
          case True
          then show ?thesis by simp
        next
          case False
          then obtain c where c: "c \<in> set cs" "q \<in> set (iter c)"
            using Element.prems by auto
          then have "size q \<le> size c"
            using Element.IH by blast
          moreover have "size c \<le> size_list size cs"
            using c(1) by (simp add: size_list_estimation')
          ultimately show ?thesis by simp
        qed
      qed
      have "size root < size p"
      proof (cases p)
        case (Element i t a cs)
        then have "size root \<le> size_list size cs"
          using p(2) by (simp add: size_list_estimation')
        then show ?thesis using Element by simp
      qed
      then show ?thesis using le [OF p(1)] by simp
    qed
  qed
qed

lemma get_xpath_loop_result:
  "\<exists>ys. get_xpath_loop root current segments = Inr (segments @ ys)"
proof (induction root current segments rule: get_xpath_loop.induct)
  case (1 root current segments)
  show ?case
  proof (cases "current \<noteq> root")
    case False
    then show ?thesis by (simp add: get_xpath_loop.simps)
  next
    case ne: True
    show ?thesis
    proof (cases "find_parent root current")
      case None
      then show ?thesis using ne by (simp add: get_xpath_loop.simps)
    next
      case (Some parent)
      then have "current \<in> set (children parent)"
        using find_parent_Some by blast
      then have "current \<in> set (filter (\<lambda>e. tag e = tag current) (children parent))"
        by simp
      then obtain i where i: "index_of (filter (\<lambda>e. tag e = tag current) (children parent)) current = Some i"
        using index_of_None_iff [of "filter (\<lambda>e. tag e = tag current) (children parent)" current]
        by (cases "index_of (filter (\<lambda>e. tag e = tag current) (children parent)) current") auto
      obtain ys where "get_xpath_loop root parent
             (segments @ [''/'' @ tag current @ ''['' @ str_nat (i + 1) @ '']''])
           = Inr ((segments @ [''/'' @ tag current @ ''['' @ str_nat (i + 1) @ '']'']) @ ys)"
        using "1.IH" [OF ne Some refl i refl] by blast
      then show ?thesis
        using ne Some i by (subst get_xpath_loop.simps) (simp add: Let_def)
    qed
  qed
qed

lemma get_xpath_total: "\<exists>p. get_xpath element root = Inr p"
  using get_xpath_loop_result [of root element "[]"]
  by (auto simp: get_xpath_def)

lemma get_xpath_detached:
  assumes "element \<notin> set (iter root)"
  shows "get_xpath element root = Inr []"
proof -
  have ne: "element \<noteq> root" using assms root_in_iter by auto
  have "find_parent root element = None"
    using assms by (simp add: find_parent_None_iff)
  then have "get_xpath_loop root element [] = Inr []"
    using ne by (simp add: get_xpath_loop.simps)
  then show ?thesis using ne by (simp add: get_xpath_def)
qed

lemma get_xpath_reachable:
  assumes "element \<in> set (iter root)"
  shows "get_xpath element root \<noteq> Inr []"
proof (cases "element = root")
  case True
  then show ?thesis by (simp add: get_xpath_def)
next
  case ne: False
  then obtain parent where par: "find_parent root element = Some parent"
    using assms find_parent_None_iff [of root element] by (cases "find_parent root element") auto
  then have "element \<in> set (filter (\<lambda>e. tag e = tag element) (children parent))"
    using find_parent_Some by fastforce
  then obtain i where i: "index_of (filter (\<lambda>e. tag e = tag element) (children parent)) element = Some i"
    using index_of_None_iff [of "filter (\<lambda>e. tag e = tag element) (children parent)" element]
    by (cases "index_of (filter (\<lambda>e. tag e = tag element) (children parent)) element") auto
  obtain ys where "get_xpath_loop root parent [''/'' @ tag element @ ''['' @ str_nat (i + 1) @ '']'']
      = Inr ([''/'' @ tag element @ ''['' @ str_nat (i + 1) @ '']''] @ ys)"
    using get_xpath_loop_result by blast
  then have "get_xpath_loop root element [] = Inr ([''/'' @ tag element @ ''['' @ str_nat (i + 1) @ '']''] @ ys)"
    using ne par i by (subst get_xpath_loop.simps) (simp add: Let_def)
  then show ?thesis using ne by (simp add: get_xpath_def)
qed

lemma index_of_first:
  "x \<in> set xs \<Longrightarrow> index_of xs x = Some (length (takeWhile (\<lambda>y. y \<noteq> x) xs))"
  by (induction xs) auto

lemma takeWhile_filter_self:
  assumes "Q x"
  shows "takeWhile (\<lambda>y. y \<noteq> x) (filter Q xs) = filter Q (takeWhile (\<lambda>y. y \<noteq> x) xs)"
proof (induction xs)
  case Nil
  show ?case by simp
next
  case (Cons a xs)
  show ?case
  proof (cases "a = x")
    case True
    then show ?thesis using assms by simp
  next
    case False
    then show ?thesis using Cons by simp
  qed
qed

lemma sibling_index:
  assumes "c \<in> set cs"
  shows "index_of (filter (\<lambda>e. tag e = tag c) cs) c = Some (sibling_rank c cs - 1)"
proof -
  have "c \<in> set (filter (\<lambda>e. tag e = tag c) cs)" using assms by simp
  then have "index_of (filter (\<lambda>e. tag e = tag c) cs) c
      = Some (length (takeWhile (\<lambda>y. y \<noteq> c) (filter (\<lambda>e. tag e = tag c) cs)))"
    by (rule index_of_first)
  also have "takeWhile (\<lambda>y. y \<noteq> c) (filter (\<lambda>e. tag e = tag c) cs)
      = filter (\<lambda>e. tag e = tag c) (takeWhile (\<lambda>y. y \<noteq> c) cs)"
    by (rule takeWhile_filter_self) simp
  finally show ?thesis by (simp add: sibling_rank_def)
qed

lemma size_in_iter: "q \<in> set (iter r) \<Longrightarrow> size q \<le> size r"
proof (induction r arbitrary: q)
  case (Element i t a cs)
  show ?case
  proof (cases "q = Element i t a cs")
    case True
    then show ?thesis by simp
  next
    case False
    then obtain c where c: "c \<in> set cs" "q \<in> set (iter c)"
      using Element.prems by auto
    then have "size q \<le> size c"
      using Element.IH by blast
    moreover have "size c \<le> size_list size cs"
      using c(1) by (simp add: size_list_estimation')
    ultimately show ?thesis by simp
  qed
qed

lemma size_child: "c \<in> set (children p) \<Longrightarrow> size c < size p"
proof (cases p)
  case (Element i t a cs)
  assume "c \<in> set (children p)"
  then have "size c \<le> size_list size cs"
    using Element by (simp add: size_list_estimation')
  then show ?thesis using Element by simp
qed

lemma unique_parent:
  "distinct (iter root) \<Longrightarrow> p \<in> set (iter root) \<Longrightarrow> q \<in> set (iter root)
     \<Longrightarrow> c \<in> set (children p) \<Longrightarrow> c \<in> set (children q) \<Longrightarrow> p = q"
proof (induction root arbitrary: p q)
  case (Element i t a cs)
  have dc: "distinct (concat (map iter cs))"
    using Element.prems(1) by simp
  have disjoint: "k1 = k2"
    if "k1 \<in> set cs" "k2 \<in> set cs" "x \<in> set (iter k1)" "x \<in> set (iter k2)" for k1 k2 x
  proof (rule ccontr)
    assume ne: "k1 \<noteq> k2"
    have "iter k1 \<noteq> iter k2"
      using ne by (cases k1; cases k2) auto
    moreover have "iter k1 \<in> set (map iter cs)" "iter k2 \<in> set (map iter cs)"
      using that by auto
    ultimately have "set (iter k1) \<inter> set (iter k2) = {}"
      using dc by (auto simp: distinct_concat_iff)
    then show False using that by auto
  qed
  have sub: "distinct (iter k)" if "k \<in> set cs" for k
    using dc that by (auto simp: distinct_concat_iff)
  have top: False
    if r: "c \<in> set cs" and q: "q \<in> set (iter k)" "k \<in> set cs" "c \<in> set (children q)" for q k
  proof -
    have ck: "c \<in> set (iter k)" using q child_in_iter by blast
    have "c = k" using disjoint [OF r q(2) root_in_iter ck] .
    then have "size q \<le> size c" using q(1) size_in_iter by blast
    then show False using size_child [OF q(3)] by simp
  qed
  show ?case
  proof (cases "p = Element i t a cs")
    case pr: True
    show ?thesis
    proof (cases "q = Element i t a cs")
      case True
      then show ?thesis using pr by simp
    next
      case False
      then obtain k where "k \<in> set cs" "q \<in> set (iter k)"
        using Element.prems(3) by auto
      then show ?thesis using top [of q k] pr Element.prems(4,5) by auto
    qed
  next
    case pn: False
    then obtain k1 where k1: "k1 \<in> set cs" "p \<in> set (iter k1)"
      using Element.prems(2) by auto
    show ?thesis
    proof (cases "q = Element i t a cs")
      case True
      then show ?thesis using top [of p k1] k1 Element.prems(4,5) by auto
    next
      case False
      then obtain k2 where k2: "k2 \<in> set cs" "q \<in> set (iter k2)"
        using Element.prems(3) by auto
      have "c \<in> set (iter k1)" "c \<in> set (iter k2)"
        using k1 k2 Element.prems(4,5) child_in_iter by blast+
      then have "k1 = k2" using disjoint k1(1) k2(1) by blast
      then show ?thesis
        using Element.IH [OF k1(1) sub [OF k1(1)] k1(2) _ Element.prems(4,5)] k2(2) by simp
    qed
  qed
qed

lemma find_parent_unique:
  assumes "distinct (iter root)" "p \<in> set (iter root)" "c \<in> set (children p)"
  shows "find_parent root c = Some p"
proof (cases "find_parent root c")
  case None
  then show ?thesis
    using assms(2,3) by (auto simp: find_parent_def find_None_iff)
next
  case (Some q)
  then have "q \<in> set (iter root)" "c \<in> set (children q)"
    using find_parent_Some by blast+
  then have "q = p" using unique_parent assms by blast
  then show ?thesis using Some by simp
qed

lemma path_to_in_iter: "path_to root e ss \<Longrightarrow> e \<in> set (iter root) \<and> e \<noteq> root"
proof (induction rule: path_to.induct)
  case (path_child c)
  then show ?case
    using child_in_iter [OF root_in_iter] size_child [of c root] by auto
next
  case (path_step p ss c)
  then have "c \<in> set (iter root)" using child_in_iter by blast
  moreover have "size c < size root"
    using size_child [OF path_step.hyps(2)] size_in_iter [of p root] path_step.IH by simp
  ultimately show ?case by auto
qed

lemma loop_step:
  assumes "distinct (iter root)" "p \<in> set (iter root)" "c \<in> set (children p)" "c \<noteq> root"
  shows "get_xpath_loop root c acc = get_xpath_loop root p (acc @ [segment c (children p)])"
proof -
  have fp: "find_parent root c = Some p"
    using assms by (intro find_parent_unique)
  have "0 < sibling_rank c (children p)" by (simp add: sibling_rank_def)
  then show ?thesis
    using assms(4) fp sibling_index [OF assms(3)]
    by (subst get_xpath_loop.simps) (simp add: Let_def segment_def)
qed

lemma loop_path:
  assumes "distinct (iter root)" and "path_to root e ss"
  shows "get_xpath_loop root e acc = Inr (acc @ rev ss)"
  using assms(2)
proof (induction arbitrary: acc rule: path_to.induct)
  case (path_child c)
  have "c \<noteq> root" using path_to_in_iter [OF path_to.path_child [OF path_child]] by simp
  then have "get_xpath_loop root c acc = get_xpath_loop root root (acc @ [segment c (children root)])"
    using loop_step [OF assms(1) root_in_iter path_child] by simp
  then show ?case by (simp add: get_xpath_loop.simps)
next
  case (path_step p ss c)
  have c: "c \<noteq> root"
    using path_to_in_iter [OF path_to.path_step [OF path_step.hyps]] by simp
  have p: "p \<in> set (iter root)"
    using path_to_in_iter [OF path_step.hyps(1)] by simp
  show ?case
    using loop_step [OF assms(1) p path_step.hyps(2) c, of acc] path_step.IH by simp
qed

lemma get_xpath_path:
  assumes "distinct (iter root)" and "path_to root e ss"
  shows "get_xpath e root = Inr (concat ss)"
  using loop_path [OF assms, of "[]"] path_to_in_iter [OF assms(2)]
  by (simp add: get_xpath_def)

lemma path_to_exists:
  "e \<in> set (iter root) \<Longrightarrow> e \<noteq> root \<Longrightarrow> \<exists>ss. path_to root e ss"
proof (induction "size root - size e" arbitrary: e rule: less_induct)
  case less
  obtain p where p: "p \<in> set (iter root)" "e \<in> set (children p)"
    using parent_in_iter less.prems by blast
  show ?case
  proof (cases "p = root")
    case True
    then show ?thesis using p(2) path_child by blast
  next
    case False
    have "size root - size p < size root - size e"
      using size_child [OF p(2)] size_in_iter [OF p(1)] by simp
    then obtain ss where "path_to root p ss"
      using less.hyps [of p] p(1) False by blast
    then show ?thesis using p(2) path_step by blast
  qed
qed

text \<open>
  In a tree whose elements are distinct objects, the path computed for an element other
  than the root is the concatenation of the segments from the child of the root down to
  the element: the ranks are those of the specification, and the root has no segment.
\<close>

lemma get_xpath_below_root:
  assumes "distinct (iter root)" and "e \<in> set (iter root)" and "e \<noteq> root"
  shows "\<exists>ss. path_to root e ss \<and> get_xpath e root = Inr (concat ss)"
  using path_to_exists [OF assms(2,3)] get_xpath_path [OF assms(1)] by blast

text \<open>
  Claim C1. In the tree \<^verbatim>\<open>root(A, A, B)\<close> the path of the second \<^verbatim>\<open>A\<close> is computed as
  \<^verbatim>\<open>/A[2]\<close> and the path of \<^verbatim>\<open>B\<close> as \<^verbatim>\<open>/B[1]\<close>: the loop stops when it reaches the root and
  adds no segment for it, while the root itself is given the path \<^verbatim>\<open>/root\<close>.
\<close>

theorem get_xpath_omits_root_segment:
  "get_xpath (Element 2 ''A'' [] [])
     (Element 0 ''root'' [] [Element 1 ''A'' [] [], Element 2 ''A'' [] [], Element 3 ''B'' [] []])
     = Inr ''/A[2]''
   \<and> get_xpath (Element 3 ''B'' [] [])
     (Element 0 ''root'' [] [Element 1 ''A'' [] [], Element 2 ''A'' [] [], Element 3 ''B'' [] []])
     = Inr ''/B[1]''
   \<and> get_xpath
     (Element 0 ''root'' [] [Element 1 ''A'' [] [], Element 2 ''A'' [] [], Element 3 ''B'' [] []])
     (Element 0 ''root'' [] [Element 1 ''A'' [] [], Element 2 ''A'' [] [], Element 3 ''B'' [] []])
     = Inr ''/root''"
  by (simp add: get_xpath_def find_parent_def get_xpath_loop.simps str_nat.simps)

text \<open>
  Claim C4, as the code has it. \<open>get_xpath\<close> never raises. For an element that is not in
  the tree of the root the search for a parent finds nothing, the loop ends at once and
  the result is the empty string; every element of the tree gets a non-empty path. So
  the empty path, and nothing else, marks a detached element.
\<close>

theorem detached_node_empty_path:
  "(\<exists>p. get_xpath element root = Inr p)
   \<and> (get_xpath element root = Inr [] \<longleftrightarrow> element \<notin> set (iter root))"
  using get_xpath_total [of element root] get_xpath_detached [of element root]
    get_xpath_reachable [of element root]
  by blast


theorem detached_node_empty_path_witness:
  "get_xpath (Element 9 ''A'' [] [])
        (Element 0 ''root'' [] [Element 1 ''A'' [] [], Element 2 ''B'' [] []]) = Inr []
   \<and> get_xpath (Element 1 ''A'' [] [])
        (Element 0 ''root'' [] [Element 1 ''A'' [] [], Element 2 ''B'' [] []]) \<noteq> Inr []"
  using detached_node_empty_path [of "Element 9 ''A'' [] []"
      "Element 0 ''root'' [] [Element 1 ''A'' [] [], Element 2 ''B'' [] []]"]
    detached_node_empty_path [of "Element 1 ''A'' [] []"
      "Element 0 ''root'' [] [Element 1 ''A'' [] [], Element 2 ''B'' [] []]"]
  by simp

text \<open>
  Claim C4 as the specification states it fails: for a detached element \<open>get_xpath\<close>
  returns normally, with the empty string, and signals nothing.
\<close>

theorem detached_node_no_failure:
  "Element 9 ''A'' [] []
     \<notin> set (iter (Element 0 ''root'' [] [Element 1 ''A'' [] [], Element 2 ''B'' [] []]))
   \<and> get_xpath (Element 9 ''A'' [] [])
        (Element 0 ''root'' [] [Element 1 ''A'' [] [], Element 2 ''B'' [] []]) = Inr []"
  by (simp add: get_xpath_def find_parent_def get_xpath_loop.simps)

section \<open>The master catalog\<close>

lemma first_seen_Nil: "first_seen key [] = []"
  by (simp add: first_seen_def)

lemma first_seen_snoc:
  "first_seen key (xs @ [x]) = first_seen key xs @ (if key x \<in> key ` set xs then [] else [x])"
proof -
  have keep: "filter (\<lambda>i. key ((xs @ [x]) ! i) \<notin> key ` set (take i (xs @ [x]))) [0..<length xs]
            = filter (\<lambda>i. key (xs ! i) \<notin> key ` set (take i xs)) [0..<length xs]"
    by (rule filter_cong) (auto simp: nth_append)
  have same: "map (\<lambda>i. (xs @ [x]) ! i) (filter (\<lambda>i. key (xs ! i) \<notin> key ` set (take i xs)) [0..<length xs])
            = map (\<lambda>i. xs ! i) (filter (\<lambda>i. key (xs ! i) \<notin> key ` set (take i xs)) [0..<length xs])"
    by (rule map_cong) (auto simp: nth_append)
  have upt: "[0..<length (xs @ [x])] = [0..<length xs] @ [length xs]"
    by simp
  have last: "filter (\<lambda>i. key ((xs @ [x]) ! i) \<notin> key ` set (take i (xs @ [x]))) [length xs]
            = (if key x \<in> key ` set xs then [] else [length xs])"
    by simp
  show ?thesis
    unfolding first_seen_def upt filter_append map_append keep same last
    by simp
qed

lemma first_seen_keys: "key ` set (first_seen key xs) = key ` set xs"
  by (induction xs rule: rev_induct) (auto simp: first_seen_Nil first_seen_snoc)

lemma first_seen_length: "length (first_seen key xs) = card (key ` set xs)"
proof (induction xs rule: rev_induct)
  case Nil
  show ?case by (simp add: first_seen_Nil)
next
  case (snoc x xs)
  show ?case
  proof (cases "key x \<in> key ` set xs")
    case True
    then have "insert (key x) (key ` set xs) = key ` set xs" by auto
    then show ?thesis using True snoc by (simp add: first_seen_snoc)
  next
    case False
    then show ?thesis using snoc by (simp add: first_seen_snoc)
  qed
qed

lemma first_seen_once:
  "length (filter (\<lambda>m. key m = k) (first_seen key xs)) = (if k \<in> key ` set xs then 1 else 0)"
proof (induction xs rule: rev_induct)
  case Nil
  show ?case by (simp add: first_seen_Nil)
next
  case (snoc x xs)
  show ?case
  proof (cases "key x \<in> key ` set xs")
    case True
    then have "(k \<in> key ` set (xs @ [x])) = (k \<in> key ` set xs)" by auto
    then show ?thesis using True snoc by (simp add: first_seen_snoc)
  next
    case False
    then show ?thesis using snoc by (auto simp: first_seen_snoc)
  qed
qed

lemma master_step_pair:
  "master_step (keys, items) n =
     (if classify_element (fst n) = ''Interactive'' \<and> node_key n \<notin> keys
      then (insert (node_key n) keys, items @ [master_entry n]) else (keys, items))"
  by (simp add: master_step_def)

lemma master_fold:
  "foldl master_step ({}, []) nodes
     = (node_key ` set (filter (\<lambda>n. classify_element (fst n) = ''Interactive'') nodes),
        map master_entry
          (first_seen node_key (filter (\<lambda>n. classify_element (fst n) = ''Interactive'') nodes)))"
proof (induction nodes rule: rev_induct)
  case Nil
  show ?case by (simp add: first_seen_Nil)
next
  case (snoc n nodes)
  have "foldl master_step ({}, []) (nodes @ [n]) = master_step (foldl master_step ({}, []) nodes) n"
    by simp
  also have "\<dots> = master_step
      (node_key ` set (filter (\<lambda>n. classify_element (fst n) = ''Interactive'') nodes),
       map master_entry
         (first_seen node_key (filter (\<lambda>n. classify_element (fst n) = ''Interactive'') nodes))) n"
    by (simp only: snoc)
  also have "\<dots> = (node_key ` set (filter (\<lambda>n. classify_element (fst n) = ''Interactive'') (nodes @ [n])),
        map master_entry
          (first_seen node_key (filter (\<lambda>n. classify_element (fst n) = ''Interactive'') (nodes @ [n]))))"
    by (auto simp: master_step_pair first_seen_snoc)
  finally show ?case .
qed

lemma process_element_master:
  "\<exists>lines'. process_element root elem (lines, keys, items)
             = Inr (lines', master_step (keys, items) (elem, root))"
proof -
  obtain xpath where x: "get_xpath elem root = Inr xpath"
    using get_xpath_total by blast
  show ?thesis
    by (simp add: process_element_def x Let_def master_step_pair node_key_def master_entry_def)
qed

lemma process_elements_master:
  "\<exists>lines'. process_elements root elems (lines, acc)
             = Inr (lines', foldl master_step acc (map (\<lambda>elem. (elem, root)) elems))"
proof (induction elems arbitrary: lines acc)
  case Nil
  show ?case by simp
next
  case (Cons elem elems)
  obtain keys items where acc: "acc = (keys, items)" by (cases acc)
  obtain lines' where step: "process_element root elem (lines, keys, items)
             = Inr (lines', master_step (keys, items) (elem, root))"
    using process_element_master by blast
  show ?case
    using Cons.IH [of lines' "master_step (keys, items) (elem, root)"]
    by (simp add: acc step)
qed


lemma snapshot_nodes_Cons:
  "snapshot_nodes parse (filename # rest) =
     (if suffix ''.xml'' (str_lower filename) then
        (case parse (''Input/'' @ filename) of
           None \<Rightarrow> []
         | Some root \<Rightarrow> map (\<lambda>elem. (elem, root)) (iter root))
      else [])
     @ snapshot_nodes parse rest"
  by (simp add: snapshot_nodes_def)

lemma process_files_master:
  "\<exists>st'. process_files parse listing st = Inr st'
         \<and> (master_interactive_set st', master_interactive_items st')
             = foldl master_step (master_interactive_set st, master_interactive_items st)
                 (snapshot_nodes parse listing)"
proof (induction listing arbitrary: st)
  case Nil
  show ?case by (simp add: snapshot_nodes_def)
next
  case (Cons filename rest)
  show ?case
  proof (cases "suffix ''.xml'' (str_lower filename)")
    case False
    then show ?thesis
      using Cons.IH [of st] by (simp add: snapshot_nodes_Cons)
  next
    case xml: True
    show ?thesis
    proof (cases "parse (''Input/'' @ filename)")
      case None
      then show ?thesis
        using xml Cons.IH [of st] by (simp add: snapshot_nodes_Cons Let_def)
    next
      case (Some root)
      obtain lines' where el: "process_elements root (iter root)
             ([''=== Locators for '' @ filename @ '' ==='' @ newline],
              master_interactive_set st, master_interactive_items st)
           = Inr (lines', foldl master_step (master_interactive_set st, master_interactive_items st)
                            (map (\<lambda>elem. (elem, root)) (iter root)))"
        using process_elements_master by blast
      obtain keys items where acc:
        "foldl master_step (master_interactive_set st, master_interactive_items st)
           (map (\<lambda>elem. (elem, root)) (iter root)) = (keys, items)"
        by (cases "foldl master_step (master_interactive_set st, master_interactive_items st)
                     (map (\<lambda>elem. (elem, root)) (iter root))")
      show ?thesis
        using xml Some el acc
          Cons.IH [of "\<lparr>master_interactive_set = keys, master_interactive_items = items,
                       output_files = output_files st
                         @ [(''Output/'' @ splitext_root filename @ ''_output.txt'',
                             join newline lines')]\<rparr>"]
        by (simp add: snapshot_nodes_Cons Let_def)
    qed
  qed
qed

lemma main_master:
  "\<exists>st. main parse listing = Inr st
        \<and> master_interactive_set st = node_key ` set (interactive_nodes parse listing)
        \<and> master_interactive_items st
            = map master_entry (first_seen node_key (interactive_nodes parse listing))"
proof -
  obtain st' where run: "process_files parse listing
        \<lparr>master_interactive_set = {}, master_interactive_items = [], output_files = []\<rparr> = Inr st'"
    and acc: "(master_interactive_set st', master_interactive_items st')
             = foldl master_step ({}, []) (snapshot_nodes parse listing)"
    using process_files_master [of parse listing
        "\<lparr>master_interactive_set = {}, master_interactive_items = [], output_files = []\<rparr>"]
    by auto
  have "master_interactive_set st' = node_key ` set (interactive_nodes parse listing)"
    and "master_interactive_items st'
            = map master_entry (first_seen node_key (interactive_nodes parse listing))"
    using acc by (simp_all add: master_fold interactive_nodes_def)
  then show ?thesis
    by (simp add: main_def run)
qed

text \<open>
  Claim C7. A run of \<open>main\<close> ends without an exception. The items of the master file
  are the entries of the Interactive nodes of all parsed files that are the first with
  their key, in the order the run meets them; the master set holds the keys of all
  Interactive nodes; there are as many items as distinct keys; and for every Interactive
  node exactly one of the nodes that got an item has its key.
\<close>

theorem master_catalog_first_seen:
  "\<exists>st. main parse listing = Inr st
     \<and> master_interactive_items st
         = map master_entry (first_seen node_key (interactive_nodes parse listing))
     \<and> master_interactive_set st = node_key ` set (interactive_nodes parse listing)
     \<and> length (master_interactive_items st)
         = card (node_key ` set (interactive_nodes parse listing))
     \<and> (\<forall>n \<in> set (interactive_nodes parse listing).
           length (filter (\<lambda>m. node_key m = node_key n)
                     (first_seen node_key (interactive_nodes parse listing))) = 1)"
proof -
  obtain st where st: "main parse listing = Inr st"
      "master_interactive_set st = node_key ` set (interactive_nodes parse listing)"
      "master_interactive_items st
         = map master_entry (first_seen node_key (interactive_nodes parse listing))"
    using main_master by blast
  have "length (master_interactive_items st) = card (node_key ` set (interactive_nodes parse listing))"
    by (simp add: st(3) first_seen_length)
  moreover have "\<forall>n \<in> set (interactive_nodes parse listing).
           length (filter (\<lambda>m. node_key m = node_key n)
                     (first_seen node_key (interactive_nodes parse listing))) = 1"
    by (simp add: first_seen_once)
  ultimately show ?thesis using st by blast
qed


theorem master_catalog_first_seen_witness:
  "\<exists>st. main (\<lambda>path.
              if path = ''Input/a.xml'' then
                Some (Element 0 ''XCUIElementTypeApplication'' []
                        [Element 1 ''XCUIElementTypeButton'' [(''name'', ''Login''), (''x'', ''10'')] []])
              else if path = ''Input/b.XML'' then
                Some (Element 2 ''XCUIElementTypeApplication'' []
                        [Element 3 ''XCUIElementTypeOther'' [] [],
                         Element 4 ''XCUIElementTypeButton'' [(''name'', ''Login''), (''x'', ''10'')] []])
              else None)
            [''a.xml'', ''notes.txt'', ''b.XML'', ''broken.xml''] = Inr st
     \<and> master_interactive_items st
         = [master_entry
              (Element 1 ''XCUIElementTypeButton'' [(''name'', ''Login''), (''x'', ''10'')] [],
               Element 0 ''XCUIElementTypeApplication'' []
                 [Element 1 ''XCUIElementTypeButton'' [(''name'', ''Login''), (''x'', ''10'')] []])]"
proof -
  define parse :: "string \<Rightarrow> element option" where
    "parse = (\<lambda>path.
              if path = ''Input/a.xml'' then
                Some (Element 0 ''XCUIElementTypeApplication'' []
                        [Element 1 ''XCUIElementTypeButton'' [(''name'', ''Login''), (''x'', ''10'')] []])
              else if path = ''Input/b.XML'' then
                Some (Element 2 ''XCUIElementTypeApplication'' []
                        [Element 3 ''XCUIElementTypeOther'' [] [],
                         Element 4 ''XCUIElementTypeButton'' [(''name'', ''Login''), (''x'', ''10'')] []])
              else None)"
  have xml: "suffix ''.xml'' (str_lower ''a.xml'')" "\<not> suffix ''.xml'' (str_lower ''notes.txt'')"
    "suffix ''.xml'' (str_lower ''b.XML'')" "suffix ''.xml'' (str_lower ''broken.xml'')"
    by (simp_all add: suffix_to_prefix str_lower_def lower_char_def)
  have nodes: "interactive_nodes parse [''a.xml'', ''notes.txt'', ''b.XML'', ''broken.xml'']
      = [(Element 1 ''XCUIElementTypeButton'' [(''name'', ''Login''), (''x'', ''10'')] [],
          Element 0 ''XCUIElementTypeApplication'' []
            [Element 1 ''XCUIElementTypeButton'' [(''name'', ''Login''), (''x'', ''10'')] []]),
         (Element 4 ''XCUIElementTypeButton'' [(''name'', ''Login''), (''x'', ''10'')] [],
          Element 2 ''XCUIElementTypeApplication'' []
            [Element 3 ''XCUIElementTypeOther'' [] [],
             Element 4 ''XCUIElementTypeButton'' [(''name'', ''Login''), (''x'', ''10'')] []])]"
    by (simp add: interactive_nodes_def snapshot_nodes_def xml parse_def classify_element_def
        INTERACTIVE_TAGS_def dict_contains_def)
  have firsts: "first_seen node_key
       [(Element 1 ''XCUIElementTypeButton'' [(''name'', ''Login''), (''x'', ''10'')] [],
          Element 0 ''XCUIElementTypeApplication'' []
            [Element 1 ''XCUIElementTypeButton'' [(''name'', ''Login''), (''x'', ''10'')] []]),
         (Element 4 ''XCUIElementTypeButton'' [(''name'', ''Login''), (''x'', ''10'')] [],
          Element 2 ''XCUIElementTypeApplication'' []
            [Element 3 ''XCUIElementTypeOther'' [] [],
             Element 4 ''XCUIElementTypeButton'' [(''name'', ''Login''), (''x'', ''10'')] []])]
     = [(Element 1 ''XCUIElementTypeButton'' [(''name'', ''Login''), (''x'', ''10'')] [],
          Element 0 ''XCUIElementTypeApplication'' []
            [Element 1 ''XCUIElementTypeButton'' [(''name'', ''Login''), (''x'', ''10'')] []])]"
    by (simp add: first_seen_def upt_conv_Cons node_key_def create_unique_key_def)
  obtain st where run: "main parse [''a.xml'', ''notes.txt'', ''b.XML'', ''broken.xml''] = Inr st"
    and items: "master_interactive_items st
      = map master_entry
          (first_seen node_key
             (interactive_nodes parse [''a.xml'', ''notes.txt'', ''b.XML'', ''broken.xml'']))"
    using master_catalog_first_seen [of parse "[''a.xml'', ''notes.txt'', ''b.XML'', ''broken.xml'']"]
    by blast
  have "master_interactive_items st
         = [master_entry
              (Element 1 ''XCUIElementTypeButton'' [(''name'', ''Login''), (''x'', ''10'')] [],
               Element 0 ''XCUIElementTypeApplication'' []
                 [Element 1 ''XCUIElementTypeButton'' [(''name'', ''Login''), (''x'', ''10'')] []])]"
    unfolding items nodes firsts by simp
  then show ?thesis
    using run unfolding parse_def by blast
qed

lemma default_absent_or_empty:
  "dict_get a k = dict_get b k \<or> (absent_or_empty (dict_get a k) \<and> absent_or_empty (dict_get b k))
     \<Longrightarrow> dict_get_default a k [] = dict_get_default b k []"
  by (auto simp: dict_get_def dict_get_default_def absent_or_empty_def)

lemma unique_key_absent_or_empty:
  assumes "tag e1 = tag e2"
    and "\<forall>k \<in> set [''name'', ''label'', ''value'', ''x'', ''y'', ''width'', ''height''].
           dict_get (attrib e1) k = dict_get (attrib e2) k
           \<or> (absent_or_empty (dict_get (attrib e1) k) \<and> absent_or_empty (dict_get (attrib e2) k))"
  shows "create_unique_key e1 = create_unique_key e2"
proof -
  have "dict_get_default (attrib e1) k [] = dict_get_default (attrib e2) k []"
    if "k \<in> set [''name'', ''label'', ''value'', ''x'', ''y'', ''width'', ''height'']" for k
    using assms(2) that by (intro default_absent_or_empty) blast
  then show ?thesis
    using assms(1) by (simp add: create_unique_key_def)
qed

text \<open>
  Claim C10. Two elements with the same tag whose attributes name, label, value, x, y,
  width and height agree, up to an attribute that is absent in one and absent or empty in
  the other, have the same key; when both are Interactive nodes of a run, exactly one of
  the nodes that got an item of the master file has that key.
\<close>

theorem absent_attribute_same_key:
  assumes "tag e1 = tag e2"
    and "\<forall>k \<in> set [''name'', ''label'', ''value'', ''x'', ''y'', ''width'', ''height''].
           dict_get (attrib e1) k = dict_get (attrib e2) k
           \<or> (absent_or_empty (dict_get (attrib e1) k) \<and> absent_or_empty (dict_get (attrib e2) k))"
  shows "create_unique_key e1 = create_unique_key e2
     \<and> ((e1, r1) \<in> set (interactive_nodes parse listing)
          \<and> (e2, r2) \<in> set (interactive_nodes parse listing)
        \<longrightarrow> (\<exists>st. main parse listing = Inr st
               \<and> master_interactive_items st
                   = map master_entry (first_seen node_key (interactive_nodes parse listing))
               \<and> length (filter (\<lambda>m. node_key m = create_unique_key e1
                                       \<or> node_key m = create_unique_key e2)
                           (first_seen node_key (interactive_nodes parse listing))) = 1))"
proof -
  have key: "create_unique_key e1 = create_unique_key e2"
    using assms by (rule unique_key_absent_or_empty)
  have "\<exists>st. main parse listing = Inr st
               \<and> master_interactive_items st
                   = map master_entry (first_seen node_key (interactive_nodes parse listing))
               \<and> length (filter (\<lambda>m. node_key m = create_unique_key e1
                                       \<or> node_key m = create_unique_key e2)
                           (first_seen node_key (interactive_nodes parse listing))) = 1"
    if "(e1, r1) \<in> set (interactive_nodes parse listing)"
  proof -
    have "create_unique_key e1 \<in> node_key ` set (interactive_nodes parse listing)"
      using that by (force simp: node_key_def)
    then have "length (filter (\<lambda>m. node_key m = create_unique_key e1)
                           (first_seen node_key (interactive_nodes parse listing))) = 1"
      by (simp add: first_seen_once)
    then show ?thesis
      using main_master [of parse listing] key by auto
  qed
  then show ?thesis using key by blast
qed


theorem absent_attribute_same_key_witness:
  "create_unique_key (Element 1 ''XCUIElementTypeButton'' [(''name'', ''Login'')] [])
     = create_unique_key (Element 3 ''XCUIElementTypeButton'' [(''name'', ''Login''), (''label'', [])] [])
   \<and> (\<exists>st. main (\<lambda>path.
              if path = ''Input/a.xml'' then
                Some (Element 0 ''XCUIElementTypeApplication'' []
                        [Element 1 ''XCUIElementTypeButton'' [(''name'', ''Login'')] []])
              else if path = ''Input/b.xml'' then
                Some (Element 2 ''XCUIElementTypeApplication'' []
                        [Element 3 ''XCUIElementTypeButton'' [(''name'', ''Login''), (''label'', [])] []])
              else None)
            [''a.xml'', ''b.xml''] = Inr st
     \<and> master_interactive_items st
         = [master_entry
              (Element 1 ''XCUIElementTypeButton'' [(''name'', ''Login'')] [],
               Element 0 ''XCUIElementTypeApplication'' []
                 [Element 1 ''XCUIElementTypeButton'' [(''name'', ''Login'')] []])])"
proof -
  define parse :: "string \<Rightarrow> element option" where
    "parse = (\<lambda>path.
              if path = ''Input/a.xml'' then
                Some (Element 0 ''XCUIElementTypeApplication'' []
                        [Element 1 ''XCUIElementTypeButton'' [(''name'', ''Login'')] []])
              else if path = ''Input/b.xml'' then
                Some (Element 2 ''XCUIElementTypeApplication'' []
                        [Element 3 ''XCUIElementTypeButton'' [(''name'', ''Login''), (''label'', [])] []])
              else None)"
  define e1 where "e1 = Element 1 ''XCUIElementTypeButton'' [(''name'', ''Login'')] []"
  define e2 where "e2 = Element 3 ''XCUIElementTypeButton'' [(''name'', ''Login''), (''label'', [])] []"
  define r1 where "r1 = Element 0 ''XCUIElementTypeApplication'' [] [e1]"
  define r2 where "r2 = Element 2 ''XCUIElementTypeApplication'' [] [e2]"
  have xml: "suffix ''.xml'' (str_lower ''a.xml'')" "suffix ''.xml'' (str_lower ''b.xml'')"
    by (simp_all add: suffix_to_prefix str_lower_def lower_char_def)
  have nodes: "interactive_nodes parse [''a.xml'', ''b.xml''] = [(e1, r1), (e2, r2)]"
    by (simp add: interactive_nodes_def snapshot_nodes_def xml parse_def classify_element_def
        INTERACTIVE_TAGS_def dict_contains_def e1_def e2_def r1_def r2_def)
  have tags: "tag e1 = tag e2"
    by (simp add: e1_def e2_def)
  have attrs: "\<forall>k \<in> set [''name'', ''label'', ''value'', ''x'', ''y'', ''width'', ''height''].
           dict_get (attrib e1) k = dict_get (attrib e2) k
           \<or> (absent_or_empty (dict_get (attrib e1) k) \<and> absent_or_empty (dict_get (attrib e2) k))"
    by (simp add: e1_def e2_def dict_get_def absent_or_empty_def)
  have both: "(e1, r1) \<in> set (interactive_nodes parse [''a.xml'', ''b.xml''])
              \<and> (e2, r2) \<in> set (interactive_nodes parse [''a.xml'', ''b.xml''])"
    by (simp add: nodes)
  have key: "create_unique_key e1 = create_unique_key e2"
    using absent_attribute_same_key [OF tags attrs] by blast
  obtain st where run: "main parse [''a.xml'', ''b.xml''] = Inr st"
    and items: "master_interactive_items st
                  = map master_entry (first_seen node_key (interactive_nodes parse [''a.xml'', ''b.xml'']))"
    using absent_attribute_same_key [OF tags attrs, of r1 parse "[''a.xml'', ''b.xml'']" r2] both
    by blast
  have firsts: "first_seen node_key [(e1, r1), (e2, r2)] = [(e1, r1)]"
    using key by (simp add: first_seen_def upt_conv_Cons node_key_def)
  have "master_interactive_items st = [master_entry (e1, r1)]"
    unfolding items nodes firsts by simp
  then show ?thesis
    using run key unfolding parse_def e1_def e2_def r1_def r2_def by blast
qed

end
